theory Spec2Isabelle
  imports Main
begin

section \<open>The command-relay broker of \<^verbatim>\<open>src/index.js\<close>\<close>

text \<open>
  The server keeps four pieces of mutable state: the list \<^verbatim>\<open>devices\<close>, the two
  indices \<^verbatim>\<open>deviceByKey\<close> and \<^verbatim>\<open>deviceByDeviceId\<close>, and the table
  \<^verbatim>\<open>pendingRequests\<close>. The list and both indices hold references to the same
  JavaScript objects, and every socket keeps a reference to its device object in
  \<^verbatim>\<open>socket.deviceObj\<close>. The model therefore has an explicit store \<open>heap\<close> from
  references (natural numbers) to device records; the list, the indices and the sockets
  hold references. Node's event loop runs each handler to completion, so a handler is a
  function from state to state. Values drawn from outside (random identifiers, socket ids,
  the clock, the outcome of a file write) are arguments of the handler that uses them.

  Request fields are JSON strings or absent (\<open>None\<close>); JavaScript's truthiness of such a
  field is \<open>truthy\<close>. The continuation of an \<^verbatim>\<open>await\<close> on a promise that a handler
  settles runs as a microtask, before any other event, so it is part of that handler's
  step. The write of \<^verbatim>\<open>saveDevices\<close> and the reset of its flag are one step as well.
  A push is recorded with the room or socket it is addressed to; who is in a room is not
  modelled. The field \<^verbatim>\<open>id\<close> of a device is \<open>dev_id\<close> here.
\<close>

subsection \<open>Data\<close>

record device =
  dev_id :: string
  key :: string
  deviceid :: "string option"
  expDate :: "string option"
  socketid :: "string option"

datatype json = JNull | JBool bool | JNum int | JStr string

text \<open>The payload of an \<^verbatim>\<open>sms-response\<close> event; an absent field is \<open>None\<close>.\<close>

record response =
  requestId :: "string option"
  status :: "json option"
  message :: "json option"

text \<open>What the server pushes to devices, and to whom.\<close>

datatype target = Room string | Socket string

datatype push =
    ForceDisconnect string
  | InsertSms string string string
  | Connected string string

type_synonym emit = "target \<times> push"

text \<open>HTTP responses: the status code and the JSON body.\<close>

datatype http_body =
    ErrorBody string
  | TimeoutBody string bool
  | CreatedBody string string string
  | MessageBody string
  | RegisteredBody string "string option"
  | ProcessedBody string "json option" "json option"

type_synonym http_response = "nat \<times> http_body"

text \<open>
  One record per promise created by \<^verbatim>\<open>/send\<close>: the request id the closure captured,
  the deadline timer (\<open>timer_armed\<close> until it fires or is cleared, due at \<open>due\<close>), and
  whether the promise has settled. The resolver stored in \<^verbatim>\<open>pendingRequests\<close> is a
  closure over this record, so the table maps a request id to the index of the record.
\<close>

datatype promise = Pending | Fulfilled response | Rejected string

record call =
  c_requestId :: string
  timer_armed :: bool
  due :: nat
  settled :: promise

text \<open>A connected socket: what the authentication middleware stored on it.\<close>

record sock =
  s_deviceId :: string
  deviceObj :: nat

text \<open>
  The file \<^verbatim>\<open>devices.json\<close> as \<^verbatim>\<open>loadDevices\<close> can find it:
  \<^item> \<open>Missing\<close>: \<^verbatim>\<open>readFile\<close> fails with \<^verbatim>\<open>ENOENT\<close>;
  \<^item> \<open>Unreadable\<close>: \<^verbatim>\<open>readFile\<close> fails for another reason;
  \<^item> \<open>Corrupt\<close>: the text is not JSON, and \<^verbatim>\<open>JSON.parse\<close> throws;
  \<^item> \<open>NotArray\<close>: the text is JSON, and the document is not an array (an object, a
    number, a string, a boolean, \<^verbatim>\<open>null\<close>);
  \<^item> \<open>Content ds\<close>: the document is an array of the device records \<open>ds\<close>;
  \<^item> \<open>WithNull pre rest\<close>: the document is an array that has \<^verbatim>\<open>null\<close> elements: the
    records \<open>pre\<close>, then the first \<^verbatim>\<open>null\<close>, then the elements \<open>rest\<close>, each a record
    or \<^verbatim>\<open>null\<close> (\<open>None\<close>).

  An element of an array is a device record, with a string as its key, or \<^verbatim>\<open>null\<close>.
\<close>

datatype file_state =
    Missing
  | Unreadable
  | Corrupt
  | Content "device list"
  | NotArray
  | WithNull "device list" "device option list"

record state =
  devices :: "nat list"
  deviceByKey :: "string \<rightharpoonup> nat"
  deviceByDeviceId :: "string \<rightharpoonup> nat"
  pendingRequests :: "string \<rightharpoonup> nat"
  cacheDirty :: bool
  heap :: "nat \<Rightarrow> device"
  next_ref :: nat
  calls :: "call list"
  sockets :: "string \<rightharpoonup> sock"
  outbox :: "emit list"
  http_out :: "(nat \<times> http_response) list"
  devices_file :: file_state
  error_log :: "string list"

definition truthy :: "string option \<Rightarrow> bool" where
  "truthy v = (case v of None \<Rightarrow> False | Some s \<Rightarrow> s \<noteq> [])"

definition null_device :: device where
  "null_device = \<lparr>dev_id = [], key = [], deviceid = None, expDate = None, socketid = None\<rparr>"

text \<open>The state of a fresh process, before \<^verbatim>\<open>startServer\<close> runs, beside a given file.\<close>

definition init_state :: "file_state \<Rightarrow> state" where
  "init_state f = \<lparr>devices = [], deviceByKey = Map.empty, deviceByDeviceId = Map.empty,
     pendingRequests = Map.empty, cacheDirty = False, heap = (\<lambda>_. null_device), next_ref = 0,
     calls = [], sockets = Map.empty, outbox = [], http_out = [], devices_file = f,
     error_log = []\<rparr>"

subsection \<open>Values drawn from outside\<close>

text \<open>
  \<^verbatim>\<open>crypto.randomBytes(n).toString("hex")\<close>: the bytes are an argument, the
  rendering is two hexadecimal digits per byte. \<^verbatim>\<open>Date.now()\<close> in a template
  literal is the decimal numeral of the clock.
\<close>

definition hexdigit :: "nat \<Rightarrow> char" where
  "hexdigit n = ''0123456789abcdef'' ! (n mod 16)"

definition hex :: "nat list \<Rightarrow> string" where
  "hex bs = concat (map (\<lambda>b. [hexdigit (b div 16), hexdigit b]) bs)"

definition generateId :: "nat list \<Rightarrow> string" where
  "generateId bytes = hex bytes"

definition generateDeviceId :: "nat list \<Rightarrow> string" where
  "generateDeviceId bytes = ''dev_'' @ hex bytes"

fun dec :: "nat \<Rightarrow> string" where
  "dec n = (if n < 10 then [hexdigit n] else dec (n div 10) @ [hexdigit (n mod 10)])"

subsection \<open>Persistence: \<^verbatim>\<open>loadDevices\<close>, \<^verbatim>\<open>saveDevices\<close>, \<^verbatim>\<open>startServer\<close>, SIGINT\<close>

text \<open>
  \<^verbatim>\<open>JSON.parse\<close> builds one new object per record of the file, and the result is
  assigned to \<^verbatim>\<open>devices\<close> before anything else; the \<^verbatim>\<open>forEach\<close> then enters each
  object into the indices. A file that is missing raises \<^verbatim>\<open>ENOENT\<close>, and the handler
  writes \<^verbatim>\<open>[]\<close>; that write is in the \<^verbatim>\<open>catch\<close> block, so its failure leaves
  \<^verbatim>\<open>loadDevices\<close> as an exception (\<open>Inl\<close>). Every other failure is caught and logged
  with \<^verbatim>\<open>console.error\<close>: a failed read, and a text that is not JSON, before
  \<^verbatim>\<open>devices\<close> is assigned; a document that is not an array, when \<^verbatim>\<open>devices.forEach\<close>
  is called on it; and a \<^verbatim>\<open>null\<close> element, when the callback reads \<^verbatim>\<open>device.key\<close>
  of it, after the elements before it have been entered into the indices.

  In the last two cases the variable \<^verbatim>\<open>devices\<close> is left holding a value that is no
  array of device objects. The field \<open>devices\<close> of the state cannot hold such a value, so
  \<^verbatim>\<open>loadDevices\<close> gives it beside the state (\<open>Some\<close>), and the field \<open>devices\<close> of that
  state is then not the variable. The handlers of the running server are modelled for a
  server whose \<^verbatim>\<open>devices\<close> is an array of device objects.
\<close>

datatype malformed = NonArray | ArrayWithNull "nat option list"

definition parse_devices :: "device list \<Rightarrow> state \<Rightarrow> state" where
  "parse_devices ds st =
     st\<lparr>devices := [next_ref st ..< next_ref st + length ds],
        heap := (\<lambda>r. if next_ref st \<le> r \<and> r < next_ref st + length ds
                      then ds ! (r - next_ref st) else heap st r),
        next_ref := next_ref st + length ds\<rparr>"

text \<open>
  \<^verbatim>\<open>JSON.parse\<close> of an array with \<^verbatim>\<open>null\<close> elements: every element that is a record
  becomes a new object, and the array holds the references and the \<^verbatim>\<open>null\<close>s.
\<close>

fun parse_elements :: "device option list \<Rightarrow> state \<Rightarrow> nat option list \<times> state" where
  "parse_elements [] st = ([], st)"
| "parse_elements (None # xs) st =
     (let (rs, st') = parse_elements xs st in (None # rs, st'))"
| "parse_elements (Some d # xs) st =
     (let r = next_ref st;
          (rs, st') = parse_elements xs (st\<lparr>heap := (heap st)(r := d), next_ref := Suc r\<rparr>)
      in (Some r # rs, st'))"

definition index_device :: "nat \<Rightarrow> state \<Rightarrow> state" where
  "index_device r st =
     (let device = heap st r;
          st1 = st\<lparr>deviceByKey := (deviceByKey st)(key device \<mapsto> r)\<rparr>
      in if truthy (deviceid device)
         then st1\<lparr>deviceByDeviceId := (deviceByDeviceId st1)(the (deviceid device) \<mapsto> r)\<rparr>
         else st1)"

text \<open>The \<^verbatim>\<open>forEach\<close> over an array with \<^verbatim>\<open>null\<close> elements: it ends at the first one.\<close>

fun index_until_null :: "nat option list \<Rightarrow> state \<Rightarrow> state" where
  "index_until_null [] st = st"
| "index_until_null (None # rs) st = st"
| "index_until_null (Some r # rs) st = index_until_null rs (index_device r st)"

definition loadDevices :: "bool \<Rightarrow> state \<Rightarrow> string + malformed option \<times> state" where
  "loadDevices write_ok st =
     (case devices_file st of
        Content ds \<Rightarrow>
          (let st1 = parse_devices ds st in Inr (None, fold index_device (devices st1) st1))
      | Missing \<Rightarrow>
          if write_ok then Inr (None, st\<lparr>devices_file := Content []\<rparr>)
          else Inl ''writeFile failed''
      | Unreadable \<Rightarrow> Inr (None, st\<lparr>error_log := error_log st @ [''Error loading devices:'']\<rparr>)
      | Corrupt \<Rightarrow> Inr (None, st\<lparr>error_log := error_log st @ [''Error loading devices:'']\<rparr>)
      | NotArray \<Rightarrow>
          Inr (Some NonArray, st\<lparr>error_log := error_log st @ [''Error loading devices:'']\<rparr>)
      | WithNull pre rest \<Rightarrow>
          (let (refs, st1) = parse_elements (map Some pre @ None # rest) st;
               st2 = index_until_null refs st1
           in Inr (Some (ArrayWithNull refs),
                   st2\<lparr>error_log := error_log st2 @ [''Error loading devices:'']\<rparr>)))"

datatype process = Listening | Exited nat

text \<open>
  \<^verbatim>\<open>startServer\<close>: the process listens when \<^verbatim>\<open>loadDevices\<close> returns, and exits with
  code 1 when it throws. The result is the process, what \<^verbatim>\<open>devices\<close> holds if that is no
  array of device objects, and the state.
\<close>

definition startServer :: "bool \<Rightarrow> state \<Rightarrow> process \<times> malformed option \<times> state" where
  "startServer write_ok st =
     (case loadDevices write_ok st of
        Inr (m, st') \<Rightarrow> (Listening, m, st')
      | Inl e \<Rightarrow> (Exited 1, None, st\<lparr>error_log := error_log st @ [''Failed to start server:'']\<rparr>))"


text \<open>
  \<^verbatim>\<open>saveDevices\<close> serialises the list as it is, every field of every record
  included. The snapshot is taken by \<^verbatim>\<open>JSON.stringify\<close> when the function is
  called; the model takes the write and the reset of the flag as one step.
\<close>

definition saveDevices :: "bool \<Rightarrow> state \<Rightarrow> state" where
  "saveDevices write_ok st =
     (if \<not> cacheDirty st then st
      else if write_ok
      then st\<lparr>devices_file := Content (map (heap st) (devices st)), cacheDirty := False\<rparr>
      else st\<lparr>error_log := error_log st @ [''Error saving devices:'']\<rparr>)"

definition clear_socketids :: "nat list \<Rightarrow> (nat \<Rightarrow> device) \<Rightarrow> (nat \<Rightarrow> device)" where
  "clear_socketids rs h = fold (\<lambda>r h'. h'(r := (h' r)\<lparr>socketid := None\<rparr>)) rs h"

definition on_sigint :: "bool \<Rightarrow> state \<Rightarrow> state" where
  "on_sigint write_ok st =
     saveDevices write_ok (st\<lparr>heap := clear_socketids (devices st) (heap st)\<rparr>)"

subsection \<open>The registry: \<^verbatim>\<open>POST /device\<close>, \<^verbatim>\<open>DELETE /device/:key\<close>, \<^verbatim>\<open>POST /register\<close>\<close>

definition create_device ::
  "string option \<Rightarrow> string option \<Rightarrow> nat list \<Rightarrow> nat list \<Rightarrow> state \<Rightarrow> http_response \<times> state"
where
  "create_device k e bytes8 bytes12 st =
     (if \<not> truthy k then ((400, ErrorBody ''Key is required''), st)
      else if deviceByKey st (the k) \<noteq> None then ((409, ErrorBody ''Key already exists''), st)
      else
        let ident = generateId bytes8;
            did = generateDeviceId bytes12;
            r = next_ref st;
            newDevice = \<lparr>dev_id = ident, key = the k, deviceid = Some did,
                         expDate = (if truthy e then e else None), socketid = None\<rparr>
        in ((201, CreatedBody ''Device key created successfully'' ident did),
            st\<lparr>heap := (heap st)(r := newDevice),
               next_ref := Suc r,
               devices := devices st @ [r],
               deviceByKey := (deviceByKey st)(the k \<mapsto> r),
               deviceByDeviceId := (deviceByDeviceId st)(did \<mapsto> r),
               cacheDirty := True\<rparr>))"

text \<open>
  The \<^verbatim>\<open>disconnect\<close> handler of socket \<open>sid\<close>. It runs when the socket closes, for
  whatever reason, and the socket leaves \<^verbatim>\<open>io.sockets.sockets\<close>; a socket that is
  not connected has no handler to run.
\<close>

definition on_disconnect :: "string \<Rightarrow> state \<Rightarrow> state" where
  "on_disconnect sid st =
     (case sockets st sid of
        None \<Rightarrow> st
      | Some s \<Rightarrow>
          st\<lparr>sockets := (sockets st)(sid := None),
             heap := (heap st)(deviceObj s := (heap st (deviceObj s))\<lparr>socketid := None\<rparr>),
             cacheDirty := True\<rparr>)"

text \<open>
  The first half of the delete handler: the push of \<^verbatim>\<open>force_disconnect\<close> to the room
  of the bound socket, and \<^verbatim>\<open>disconnect()\<close> on that socket if it is still connected,
  which runs its \<^verbatim>\<open>disconnect\<close> handler at once.
\<close>

definition force_disconnect :: "nat \<Rightarrow> state \<Rightarrow> state" where
  "force_disconnect r st =
     (if truthy (socketid (heap st r))
      then let sid = the (socketid (heap st r))
           in on_disconnect sid
                (st\<lparr>outbox := outbox st @ [(Room sid, ForceDisconnect ''Device key was deleted'')]\<rparr>)
      else st)"

text \<open>\<^verbatim>\<open>findIndex\<close> followed by \<^verbatim>\<open>splice(index, 1)\<close>: the first match goes.\<close>

fun splice_first :: "('a \<Rightarrow> bool) \<Rightarrow> 'a list \<Rightarrow> 'a list" where
  "splice_first P [] = []"
| "splice_first P (x # xs) = (if P x then xs else x # splice_first P xs)"

definition remove_device :: "string \<Rightarrow> nat \<Rightarrow> state \<Rightarrow> state" where
  "remove_device k r st =
     (let device = heap st r;
          st1 = st\<lparr>devices := splice_first (\<lambda>d. key (heap st d) = k) (devices st),
                   deviceByKey := (deviceByKey st)(k := None)\<rparr>;
          st2 = (if truthy (deviceid device)
                 then st1\<lparr>deviceByDeviceId := (deviceByDeviceId st1)(the (deviceid device) := None)\<rparr>
                 else st1)
      in st2\<lparr>cacheDirty := True\<rparr>)"

definition delete_device :: "string \<Rightarrow> state \<Rightarrow> http_response \<times> state" where
  "delete_device k st =
     (case deviceByKey st k of
        None \<Rightarrow> ((404, ErrorBody ''Device key not found''), st)
      | Some r \<Rightarrow>
          ((200, MessageBody ''Device key deleted successfully''),
           remove_device k r (force_disconnect r st)))"

text \<open>
  \<^verbatim>\<open>isKeyValid\<close>: \<open>parseDate\<close> stands for \<^verbatim>\<open>new Date(s).getTime()\<close>, with \<open>None\<close>
  for \<^verbatim>\<open>NaN\<close>, against which every comparison is false.
\<close>

definition isKeyValid :: "(string \<Rightarrow> int option) \<Rightarrow> nat \<Rightarrow> device \<Rightarrow> bool" where
  "isKeyValid parseDate now device =
     (\<not> truthy (expDate device) \<or>
      (case parseDate (the (expDate device)) of None \<Rightarrow> False | Some t \<Rightarrow> int now < t))"

definition register ::
  "(string \<Rightarrow> int option) \<Rightarrow> nat \<Rightarrow> string option \<Rightarrow> state \<Rightarrow> http_response \<times> state"
where
  "register parseDate now k st =
     (if \<not> truthy k then ((400, ErrorBody ''Key is required''), st)
      else case deviceByKey st (the k) of
        None \<Rightarrow> ((404, ErrorBody ''Invalid key''), st)
      | Some r \<Rightarrow>
          if \<not> isKeyValid parseDate now (heap st r)
          then ((400, ErrorBody ''Key has expired''), st)
          else ((200, RegisteredBody ''Device registered successfully'' (deviceid (heap st r))), st))"

subsection \<open>The broker: \<^verbatim>\<open>POST /send\<close>, the deadline timer, \<^verbatim>\<open>sms-response\<close>\<close>

text \<open>
  \<^verbatim>\<open>send\<close> answers at once (\<open>Some\<close> response) when a check fails. Otherwise the promise
  executor runs: it arms the timer, stores the resolver under the request id and pushes
  \<^verbatim>\<open>insert-sms\<close>; the handler then waits on the promise (\<open>None\<close>), and its response is
  appended to \<open>http_out\<close> by whichever of the timer and the resolver settles the promise.
  \<open>rnd\<close> is \<^verbatim>\<open>Math.random().toString(36).substr(2, 9)\<close>.
\<close>

definition make_requestId :: "string \<Rightarrow> nat \<Rightarrow> string \<Rightarrow> string" where
  "make_requestId deviceId now rnd = deviceId @ ''-'' @ dec now @ ''-'' @ rnd"

definition send ::
  "string option \<Rightarrow> string option \<Rightarrow> string option \<Rightarrow> nat \<Rightarrow> string \<Rightarrow> state
     \<Rightarrow> http_response option \<times> state"
where
  "send deviceId destNumber textMessage now rnd st =
     (if \<not> truthy deviceId \<or> \<not> truthy destNumber \<or> \<not> truthy textMessage
      then (Some (400, ErrorBody ''Device ID, destination number, and text message are required''), st)
      else case deviceByDeviceId st (the deviceId) of
        None \<Rightarrow> (Some (404, ErrorBody ''Device not registered''), st)
      | Some r \<Rightarrow>
          if \<not> truthy (socketid (heap st r))
          then (Some (404, ErrorBody ''Device not connected''), st)
          else
            let rid = make_requestId (the deviceId) now rnd;
                c = length (calls st)
            in (None,
                st\<lparr>calls := calls st @
                     [\<lparr>c_requestId = rid, timer_armed = True, due = now + 4500, settled = Pending\<rparr>],
                   pendingRequests := (pendingRequests st)(rid \<mapsto> c),
                   outbox := outbox st @
                     [(Room (the (socketid (heap st r))),
                       InsertSms (the destNumber) (the textMessage) rid)]\<rparr>))"

text \<open>
  The timer callback of call \<open>c\<close>, and the \<^verbatim>\<open>catch\<close> block that the rejection wakes:
  both delete the table entry of the call's request id. A timer that was cleared, that
  has fired, or that is not yet due does not run.
\<close>

definition timer_fire :: "nat \<Rightarrow> nat \<Rightarrow> state \<Rightarrow> state" where
  "timer_fire now c st =
     (if c < length (calls st) \<and> timer_armed (calls st ! c) \<and> due (calls st ! c) \<le> now
      then
        let cl = calls st ! c;
            st1 = st\<lparr>pendingRequests := (pendingRequests st)(c_requestId cl := None)\<rparr>
        in case settled cl of
             Pending \<Rightarrow>
               st1\<lparr>calls := (calls st)[c := cl\<lparr>timer_armed := False,
                                               settled := Rejected ''Device did not respond in time''\<rparr>],
                   http_out := http_out st @
                     [(c, (408, TimeoutBody ''Device did not respond in time'' False))]\<rparr>
           | _ \<Rightarrow> st1\<lparr>calls := (calls st)[c := cl\<lparr>timer_armed := False\<rparr>]\<rparr>
      else st)"

text \<open>
  The resolver of call \<open>c\<close>: \<^verbatim>\<open>clearTimeout\<close>, then \<^verbatim>\<open>resolve(response)\<close>, which
  does nothing on a promise that has settled; on a pending one the handler resumes and
  answers with the reply's fields. The resolver does not touch \<^verbatim>\<open>pendingRequests\<close>.
  The table only ever holds resolvers of calls that were made, so the index is in range.
\<close>

definition resolver :: "nat \<Rightarrow> response \<Rightarrow> state \<Rightarrow> state" where
  "resolver c resp st =
     (if c < length (calls st)
      then
        let cl = calls st ! c
        in case settled cl of
             Pending \<Rightarrow>
               st\<lparr>calls := (calls st)[c := cl\<lparr>timer_armed := False, settled := Fulfilled resp\<rparr>],
                  http_out := http_out st @
                    [(c, (200, ProcessedBody ''Message processed by device''
                                 (status resp) (message resp)))]\<rparr>
           | _ \<Rightarrow> st\<lparr>calls := (calls st)[c := cl\<lparr>timer_armed := False\<rparr>]\<rparr>
      else st)"

text \<open>
  The \<^verbatim>\<open>sms-response\<close> handler. A payload that is \<^verbatim>\<open>null\<close> or \<^verbatim>\<open>undefined\<close>
  (\<open>None\<close>) makes \<^verbatim>\<open>response.requestId\<close> throw; the \<^verbatim>\<open>uncaughtException\<close> handler
  logs it. Any other payload is read for its \<^verbatim>\<open>requestId\<close>, \<^verbatim>\<open>status\<close> and
  \<^verbatim>\<open>message\<close>, each absent or present.
\<close>

definition on_sms_response :: "response option \<Rightarrow> state \<Rightarrow> state" where
  "on_sms_response payload st =
     (case payload of
        None \<Rightarrow> st\<lparr>error_log := error_log st @ [''Uncaught Exception:'']\<rparr>
      | Some resp \<Rightarrow>
          (case requestId resp of
             None \<Rightarrow> st
           | Some rid \<Rightarrow>
               (case pendingRequests st rid of
                  None \<Rightarrow> st
                | Some c \<Rightarrow> resolver c resp st)))"

subsection \<open>The gateway: the authentication middleware and the connection handler\<close>

definition io_use :: "string option \<Rightarrow> state \<Rightarrow> string + sock" where
  "io_use deviceId st =
     (if \<not> truthy deviceId then Inl ''Device ID is required''
      else case deviceByDeviceId st (the deviceId) of
        None \<Rightarrow> Inl ''Device not registered''
      | Some r \<Rightarrow> Inr \<lparr>s_deviceId = the deviceId, deviceObj = r\<rparr>)"

definition on_connection :: "string \<Rightarrow> sock \<Rightarrow> state \<Rightarrow> state" where
  "on_connection sid s st =
     st\<lparr>heap := (heap st)(deviceObj s := (heap st (deviceObj s))\<lparr>socketid := Some sid\<rparr>),
        sockets := (sockets st)(sid \<mapsto> s),
        cacheDirty := True,
        outbox := outbox st @
          [(Socket sid, Connected ''Successfully connected to server'' (s_deviceId s))]\<rparr>"

definition connect :: "string \<Rightarrow> string option \<Rightarrow> state \<Rightarrow> string option \<times> state" where
  "connect sid deviceId st =
     (case io_use deviceId st of
        Inl e \<Rightarrow> (Some e, st)
      | Inr s \<Rightarrow> (None, on_connection sid s st))"

subsection \<open>Events\<close>

text \<open>
  What can happen to a running server, one handler at a time. An event of a socket
  reaches its handler only while the socket is connected. The liveness check of a
  connection only ever calls \<^verbatim>\<open>socket.disconnect\<close>, so it is a \<open>Disconnect\<close> here.
  \<^verbatim>\<open>/register\<close> changes nothing, whatever it answers.
\<close>

datatype event =
    CreateDevice "string option" "string option" "nat list" "nat list"
  | DeleteDevice string
  | Register "string option"
  | Send "string option" "string option" "string option" nat string
  | Connect string "string option"
  | SmsResponse string "response option"
  | Disconnect string
  | TimerFire nat nat
  | Flush bool

fun step :: "event \<Rightarrow> state \<Rightarrow> state" where
  "step (CreateDevice k e b8 b12) st = snd (create_device k e b8 b12 st)"
| "step (DeleteDevice k) st = snd (delete_device k st)"
| "step (Register k) st = st"
| "step (Send d n t now rnd) st = snd (send d n t now rnd st)"
| "step (Connect sid d) st = snd (connect sid d st)"
| "step (SmsResponse sid payload) st =
     (if sockets st sid = None then st else on_sms_response payload st)"
| "step (Disconnect sid) st = on_disconnect sid st"
| "step (TimerFire now c) st = timer_fire now c st"
| "step (Flush write_ok) st = saveDevices write_ok st"

definition run :: "event list \<Rightarrow> state \<Rightarrow> state" where
  "run es st = fold step es st"

subsection \<open>Invariants\<close>

text \<open>
  The registry is consistent when the list and the two indices hold the same objects:
  an object is in the list exactly when the by-key index has it under its key, and
  exactly when the by-deviceid index has it under its deviceid, and neither index has
  an entry that points elsewhere.
\<close>

definition consistent :: "state \<Rightarrow> bool" where
  "consistent st \<longleftrightarrow>
     (\<forall>r. r \<in> set (devices st) \<longleftrightarrow> deviceByKey st (key (heap st r)) = Some r) \<and>
     (\<forall>r. r \<in> set (devices st) \<longleftrightarrow>
          (\<exists>i. deviceid (heap st r) = Some i \<and> deviceByDeviceId st i = Some r)) \<and>
     (\<forall>k r. deviceByKey st k = Some r \<longrightarrow> key (heap st r) = k) \<and>
     (\<forall>i r. deviceByDeviceId st i = Some r \<longrightarrow> deviceid (heap st r) = Some i)"

text \<open>
  The invariant that the handlers keep. Beside consistency it says that the list holds
  no object twice, that every deviceid in use is a non-empty string (the delete handler
  skips the by-deviceid index otherwise), and that every object of the list has been
  allocated.
\<close>

definition store_ok :: "state \<Rightarrow> bool" where
  "store_ok st \<longleftrightarrow>
     distinct (devices st) \<and>
     (\<forall>r \<in> set (devices st).
        r < next_ref st \<and> deviceByKey st (key (heap st r)) = Some r \<and>
        (\<exists>i. i \<noteq> [] \<and> deviceid (heap st r) = Some i \<and> deviceByDeviceId st i = Some r)) \<and>
     (\<forall>k r. deviceByKey st k = Some r \<longrightarrow> r \<in> set (devices st) \<and> key (heap st r) = k) \<and>
     (\<forall>i r. deviceByDeviceId st i = Some r \<longrightarrow>
        r \<in> set (devices st) \<and> deviceid (heap st r) = Some i)"

text \<open>No two objects of the list share a key, and no two share a deviceid.\<close>

definition unique_keys :: "state \<Rightarrow> bool" where
  "unique_keys st \<longleftrightarrow>
     (\<forall>r \<in> set (devices st). \<forall>r' \<in> set (devices st).
        key (heap st r) = key (heap st r') \<longrightarrow> r = r')"

definition unique_deviceids :: "state \<Rightarrow> bool" where
  "unique_deviceids st \<longleftrightarrow>
     (\<forall>r \<in> set (devices st). \<forall>r' \<in> set (devices st).
        deviceid (heap st r) = deviceid (heap st r') \<longrightarrow> r = r')"

text \<open>
  The random source is taken to give a deviceid that no registered device has, at
  every creation of a run: the code draws 12 random bytes and does not check.
\<close>

fun fresh_ids :: "event list \<Rightarrow> state \<Rightarrow> bool" where
  "fresh_ids [] st = True"
| "fresh_ids (e # es) st =
     ((case e of
         CreateDevice k x b8 b12 \<Rightarrow> deviceByDeviceId st (generateDeviceId b12) = None
       | _ \<Rightarrow> True) \<and>
      fresh_ids es (step e st))"

text \<open>
  The pending table is consistent with the calls: an entry points at an existing call
  that carries the entry's request id; a response has gone out only for a call whose
  promise has settled, and at most one per call.
\<close>

definition calls_ok :: "state \<Rightarrow> bool" where
  "calls_ok st \<longleftrightarrow>
     (\<forall>rid c. pendingRequests st rid = Some c \<longrightarrow>
        c < length (calls st) \<and> c_requestId (calls st ! c) = rid) \<and>
     (\<forall>x \<in> set (http_out st). fst x < length (calls st) \<and> settled (calls st ! fst x) \<noteq> Pending) \<and>
     distinct (map fst (http_out st))"

text \<open>No call made so far carries the request id \<open>rid\<close>.\<close>

definition unused_requestId :: "string \<Rightarrow> state \<Rightarrow> bool" where
  "unused_requestId rid st \<longleftrightarrow> (\<forall>cl \<in> set (calls st). c_requestId cl \<noteq> rid)"

text \<open>
  The events that concern call \<open>c\<close> with request id \<open>rid\<close>: a reply tagged with \<open>rid\<close>,
  the timer of \<open>c\<close>, and a later \<^verbatim>\<open>/send\<close> that draws the same request id again.
\<close>

fun concerns :: "string \<Rightarrow> nat \<Rightarrow> event \<Rightarrow> bool" where
  "concerns rid c (SmsResponse sid payload) =
     (case payload of None \<Rightarrow> False | Some resp \<Rightarrow> requestId resp = Some rid)"
| "concerns rid c (TimerFire now c') = (c' = c)"
| "concerns rid c (Send d n t now rnd) =
     (case d of None \<Rightarrow> False | Some x \<Rightarrow> make_requestId x now rnd = rid)"
| "concerns rid c e = False"

text \<open>
  Call \<open>c\<close>, made with request id \<open>rid\<close> and a timer due at \<open>d\<close>, is in flight: its
  promise is pending, its timer is armed, the table maps \<open>rid\<close> to its resolver and no
  other request id does, no other call carries \<open>rid\<close>, and no response has gone out for it.
\<close>

definition in_flight :: "string \<Rightarrow> nat \<Rightarrow> nat \<Rightarrow> state \<Rightarrow> bool" where
  "in_flight rid c d st \<longleftrightarrow>
     c < length (calls st) \<and>
     calls st ! c = \<lparr>c_requestId = rid, timer_armed = True, due = d, settled = Pending\<rparr> \<and>
     pendingRequests st rid = Some c \<and>
     (\<forall>rid'. pendingRequests st rid' = Some c \<longrightarrow> rid' = rid) \<and>
     (\<forall>c'. c' < length (calls st) \<and> c_requestId (calls st ! c') = rid \<longrightarrow> c' = c) \<and>
     c \<notin> fst ` set (http_out st)"

text \<open>
  A device whose \<^verbatim>\<open>expDate\<close> is set and is not in the future: \<^verbatim>\<open>isKeyValid\<close>
  compares \<^verbatim>\<open>Date.now() < new Date(expDate).getTime()\<close>.
\<close>

definition expired :: "(string \<Rightarrow> int option) \<Rightarrow> nat \<Rightarrow> device \<Rightarrow> bool" where
  "expired parseDate now device \<longleftrightarrow>
     (case expDate device of
        None \<Rightarrow> False
      | Some x \<Rightarrow> x \<noteq> [] \<and> (case parseDate x of None \<Rightarrow> False | Some t \<Rightarrow> t \<le> int now))"

subsection \<open>A scenario\<close>

text \<open>
  The scenario of the specification: a device is created with key \<^verbatim>\<open>abc123\<close>,
  connects, is sent a message and replies.
\<close>

definition st_created :: state where
  "st_created =
     snd (create_device (Some ''abc123'') None [1, 35, 69, 103, 137, 171, 205, 239]
            [10, 255, 0, 17, 34, 51, 68, 85, 102, 119, 136, 153] (init_state Missing))"

definition the_deviceid :: string where
  "the_deviceid = ''dev_0aff00112233445566778899''"

definition st_bound :: state where
  "st_bound = snd (connect ''sockA'' (Some the_deviceid) st_created)"

definition st_rebound :: state where
  "st_rebound = snd (connect ''sockB'' (Some the_deviceid) st_bound)"

definition st_sent :: state where
  "st_sent = snd (send (Some the_deviceid) (Some ''+15551234567'') (Some ''hi'') 1700 ''k3x9q2m1z'' st_bound)"

definition the_requestId :: string where
  "the_requestId = ''dev_0aff00112233445566778899-1700-k3x9q2m1z''"

definition the_reply :: response where
  "the_reply = \<lparr>requestId = Some the_requestId, status = Some (JBool True),
                 message = Some (JStr ''sent'')\<rparr>"

definition st_replied :: state where
  "st_replied = on_sms_response (Some the_reply) st_sent"

text \<open>A device created with an expiry date that has passed, and the date's parse.\<close>

definition st_expired :: state where
  "st_expired =
     snd (create_device (Some ''abc123'') (Some ''2020-01-01'') [1, 35, 69, 103, 137, 171, 205, 239]
            [10, 255, 0, 17, 34, 51, 68, 85, 102, 119, 136, 153] (init_state Missing))"

definition parse2020 :: "string \<Rightarrow> int option" where
  "parse2020 s = (if s = ''2020-01-01'' then Some 1577836800000 else None)"

text \<open>Two devices are created, a third creation repeats a key, the first device is deleted.\<close>

definition es_registry :: "event list" where
  "es_registry =
     [CreateDevice (Some ''abc123'') None [1, 35, 69, 103, 137, 171, 205, 239]
        [10, 255, 0, 17, 34, 51, 68, 85, 102, 119, 136, 153],
      CreateDevice (Some ''xyz789'') None [2, 35, 69, 103, 137, 171, 205, 239]
        [11, 255, 0, 17, 34, 51, 68, 85, 102, 119, 136, 153],
      CreateDevice (Some ''abc123'') None [3, 35, 69, 103, 137, 171, 205, 239]
        [12, 255, 0, 17, 34, 51, 68, 85, 102, 119, 136, 153],
      DeleteDevice ''abc123'']"

text \<open>
  Events that do not concern the request of the scenario: a flush, a reply with another
  request id, and a second \<^verbatim>\<open>/send\<close> to the same device.
\<close>

definition es_quiet :: "event list" where
  "es_quiet =
     [Flush True,
      SmsResponse ''sockA'' (Some \<lparr>requestId = Some ''dev_0aff00112233445566778899-1600-zzzzzzzzz'',
                                    status = Some (JBool True), message = None\<rparr>),
      Send (Some the_deviceid) (Some ''+15551234567'') (Some ''again'') 1800 ''a1b2c3d4e'']"


section \<open>Properties\<close>

lemmas handler_defs =
  create_device_def delete_device_def remove_device_def force_disconnect_def
  on_disconnect_def register_def isKeyValid_def send_def make_requestId_def timer_fire_def
  resolver_def on_sms_response_def io_use_def on_connection_def connect_def saveDevices_def
  on_sigint_def clear_socketids_def loadDevices_def startServer_def parse_devices_def
  index_device_def

lemmas scenario_defs =
  st_created_def st_bound_def st_rebound_def st_sent_def st_replied_def st_expired_def the_reply_def
  the_deviceid_def the_requestId_def init_state_def generateId_def generateDeviceId_def
  hex_def hexdigit_def truthy_def

subsection \<open>Replies and the pending table\<close>

text \<open>
  C8. A reply whose request id is not in the pending table (late, duplicate after a
  timeout, unknown, or with no request id at all) is dropped: the handler leaves the
  whole state as it was, which includes the error log, the responses and the pushes.
\<close>

theorem unknown_reply_dropped:
  assumes "\<forall>rid. requestId resp = Some rid \<longrightarrow> pendingRequests st rid = None"
  shows "on_sms_response (Some resp) st = st \<and> step (SmsResponse sid (Some resp)) st = st"
  using assms by (cases "requestId resp") (auto simp: on_sms_response_def)

theorem unknown_reply_dropped_witness:
  "pendingRequests (timer_fire 6200 0 st_sent) the_requestId = None \<and>
   on_sms_response (Some the_reply) (timer_fire 6200 0 st_sent) = timer_fire 6200 0 st_sent \<and>
   step (SmsResponse ''sockA'' (Some the_reply)) (timer_fire 6200 0 st_sent) =
     timer_fire 6200 0 st_sent"
proof -
  have gone: "pendingRequests (timer_fire 6200 0 st_sent) the_requestId = None"
    by (simp add: scenario_defs handler_defs Let_def)
  have tag: "requestId the_reply = Some the_requestId"
    by (simp add: the_reply_def)
  show ?thesis
    using gone tag unknown_reply_dropped [of the_reply "timer_fire 6200 0 st_sent" "''sockA''"]
    by simp
qed

text \<open>
  C1. The claim asks that the entry of a request leaves the table when its reply
  arrives. The resolver clears the timer and resolves the promise, and the entry stays:
  after a matching reply the table still maps the request id to the same resolver.
\<close>

theorem reply_keeps_pending_entry:
  assumes "pendingRequests st rid = Some c" and "requestId resp = Some rid"
  shows "pendingRequests (on_sms_response (Some resp) st) rid = Some c"
  using assms
  by (simp add: on_sms_response_def resolver_def Let_def split: promise.splits)

theorem reply_keeps_pending_entry_witness:
  "pendingRequests st_sent the_requestId = Some 0 \<and>
   http_out st_replied =
     [(0, (200, ProcessedBody ''Message processed by device''
                  (Some (JBool True)) (Some (JStr ''sent''))))] \<and>
   pendingRequests st_replied the_requestId = Some 0"
proof -
  have entry: "pendingRequests st_sent the_requestId = Some 0"
    by (simp add: scenario_defs handler_defs Let_def)
  have tag: "requestId the_reply = Some the_requestId"
    by (simp add: the_reply_def)
  have answered: "http_out st_replied =
     [(0, (200, ProcessedBody ''Message processed by device''
                  (Some (JBool True)) (Some (JStr ''sent''))))]"
    by (simp add: scenario_defs handler_defs Let_def)
  show ?thesis
    using entry answered reply_keeps_pending_entry [OF entry tag]
    by (simp add: st_replied_def)
qed

subsection \<open>The registry invariant\<close>

text \<open>
  Handlers that leave the list, the indices and the keys and deviceids of the objects
  alone keep the invariant; that is every handler but create and delete.
\<close>

lemma store_ok_cong:
  assumes "devices st' = devices st" "deviceByKey st' = deviceByKey st"
    "deviceByDeviceId st' = deviceByDeviceId st" "next_ref st' = next_ref st"
    "\<And>r. key (heap st' r) = key (heap st r)" "\<And>r. deviceid (heap st' r) = deviceid (heap st r)"
  shows "store_ok st' = store_ok st"
  using assms by (simp add: store_ok_def)

lemma store_ok_init: "store_ok (init_state f)"
  by (simp add: store_ok_def init_state_def)

lemma store_ok_on_disconnect: "store_ok (on_disconnect sid st) = store_ok st"
  by (rule store_ok_cong) (simp_all add: on_disconnect_def split: option.splits)

lemma store_ok_on_connection: "store_ok (on_connection sid s st) = store_ok st"
  by (rule store_ok_cong) (simp_all add: on_connection_def)

lemma store_ok_connect: "store_ok (snd (connect sid d st)) = store_ok st"
  by (simp add: connect_def store_ok_on_connection split: sum.splits)

lemma store_ok_send: "store_ok (snd (send d n t now rnd st)) = store_ok st"
  by (rule store_ok_cong) (simp_all add: send_def Let_def split: option.splits)

lemma store_ok_resolver: "store_ok (resolver c resp st) = store_ok st"
  by (rule store_ok_cong) (simp_all add: resolver_def Let_def split: promise.splits)

lemma store_ok_error_log: "store_ok (st\<lparr>error_log := l\<rparr>) = store_ok st"
  by (simp add: store_ok_def)

lemma store_ok_on_sms_response: "store_ok (on_sms_response p st) = store_ok st"
  by (simp add: on_sms_response_def store_ok_resolver store_ok_error_log split: option.splits)

lemma store_ok_timer_fire: "store_ok (timer_fire now c st) = store_ok st"
  by (rule store_ok_cong) (simp_all add: timer_fire_def Let_def split: promise.splits)

lemma store_ok_saveDevices: "store_ok (saveDevices w st) = store_ok st"
  by (rule store_ok_cong) (simp_all add: saveDevices_def)

lemma store_ok_force_disconnect: "store_ok (force_disconnect r st) = store_ok st"
  by (rule store_ok_cong) (simp_all add: force_disconnect_def on_disconnect_def Let_def split: option.splits)

lemma store_ok_consistent: "store_ok st \<Longrightarrow> consistent st"
  unfolding store_ok_def consistent_def by blast

lemma store_ok_unique_keys: "store_ok st \<Longrightarrow> unique_keys st"
  unfolding store_ok_def unique_keys_def by (metis option.inject)

lemma store_ok_unique_deviceids: "store_ok st \<Longrightarrow> unique_deviceids st"
  unfolding store_ok_def unique_deviceids_def by (metis option.inject)

lemma store_ok_create:
  assumes ok: "store_ok st" and fresh: "deviceByDeviceId st (generateDeviceId b12) = None"
  shows "store_ok (snd (create_device k e b8 b12 st))"
proof (cases "truthy k \<and> deviceByKey st (the k) = None")
  case False
  then show ?thesis using ok by (auto simp: create_device_def)
next
  case True
  let ?r = "next_ref st" and ?d = "generateDeviceId b12"
  define st' where "st' = snd (create_device k e b8 b12 st)"
  have fields:
    "devices st' = devices st @ [?r]"
    "deviceByKey st' = (deviceByKey st)(the k \<mapsto> ?r)"
    "deviceByDeviceId st' = (deviceByDeviceId st)(?d \<mapsto> ?r)"
    "next_ref st' = Suc ?r"
    using True by (simp_all add: st'_def create_device_def Let_def)
  have new_obj: "key (heap st' ?r) = the k" "deviceid (heap st' ?r) = Some ?d"
    using True by (simp_all add: st'_def create_device_def Let_def)
  have others: "heap st' r = heap st r" if "r \<noteq> ?r" for r
    using True that by (simp add: st'_def create_device_def Let_def)
  have nonempty: "?d \<noteq> []" by (simp add: generateDeviceId_def)
  have old: "r < ?r \<and> deviceByKey st (key (heap st r)) = Some r \<and>
        (\<exists>i. i \<noteq> [] \<and> deviceid (heap st r) = Some i \<and> deviceByDeviceId st i = Some r)"
    if "r \<in> set (devices st)" for r
    using ok that unfolding store_ok_def by blast
  have byKey: "r \<in> set (devices st) \<and> key (heap st r) = k'" if "deviceByKey st k' = Some r" for k' r
    using ok that unfolding store_ok_def by blast
  have byId: "r \<in> set (devices st) \<and> deviceid (heap st r) = Some i" if "deviceByDeviceId st i = Some r" for i r
    using ok that unfolding store_ok_def by blast
  have c1: "distinct (devices st')"
    using ok old unfolding fields store_ok_def by auto
  have c2: "r < next_ref st' \<and> deviceByKey st' (key (heap st' r)) = Some r \<and>
        (\<exists>i. i \<noteq> [] \<and> deviceid (heap st' r) = Some i \<and> deviceByDeviceId st' i = Some r)"
    if "r \<in> set (devices st')" for r
  proof (cases "r = ?r")
    case True
    then show ?thesis using new_obj nonempty by (simp add: fields)
  next
    case False
    then have mem: "r \<in> set (devices st)" using that by (simp add: fields)
    from old [OF mem] obtain i where i: "r < ?r" "deviceByKey st (key (heap st r)) = Some r"
      "i \<noteq> []" "deviceid (heap st r) = Some i" "deviceByDeviceId st i = Some r" by blast
    have "key (heap st r) \<noteq> the k" using i(2) \<open>truthy k \<and> deviceByKey st (the k) = None\<close> by auto
    moreover have "i \<noteq> ?d" using i(5) fresh by auto
    ultimately show ?thesis using i others [OF False] by (simp add: fields)
  qed
  have c3: "r \<in> set (devices st') \<and> key (heap st' r) = k'" if "deviceByKey st' k' = Some r" for k' r
  proof (cases "k' = the k")
    case True
    then show ?thesis using that new_obj by (simp add: fields)
  next
    case False
    then have "deviceByKey st k' = Some r" using that by (simp add: fields)
    from byKey [OF this] old [of r] others [of r] show ?thesis by (auto simp: fields)
  qed
  have c4: "r \<in> set (devices st') \<and> deviceid (heap st' r) = Some i" if "deviceByDeviceId st' i = Some r" for i r
  proof (cases "i = ?d")
    case True
    then show ?thesis using that new_obj by (simp add: fields)
  next
    case False
    then have "deviceByDeviceId st i = Some r" using that by (simp add: fields)
    from byId [OF this] old [of r] others [of r] show ?thesis by (auto simp: fields)
  qed
  show ?thesis
    unfolding st'_def [symmetric] store_ok_def using c1 c2 c3 c4 by blast
qed

lemma splice_first_remove1:
  assumes "r \<in> set xs" and "P r" and "\<forall>x \<in> set xs. P x \<longrightarrow> x = r"
  shows "splice_first P xs = remove1 r xs"
  using assms
proof (induction xs)
  case Nil
  then show ?case by simp
next
  case (Cons a xs)
  show ?case
  proof (cases "P a")
    case True
    with Cons.prems(3) have "a = r" by simp
    with True show ?thesis by simp
  next
    case False
    with Cons.prems(2) have ne: "a \<noteq> r" by blast
    with Cons.prems(1) have mem: "r \<in> set xs" by simp
    from Cons.prems(3) have rest: "\<forall>x \<in> set xs. P x \<longrightarrow> x = r" by simp
    from Cons.IH [OF mem Cons.prems(2) rest] False ne show ?thesis by simp
  qed
qed

lemma store_ok_byKey:
  "store_ok st \<Longrightarrow> deviceByKey st k = Some r \<Longrightarrow> r \<in> set (devices st) \<and> key (heap st r) = k"
  by (simp add: store_ok_def)

lemma store_ok_byId:
  "store_ok st \<Longrightarrow> deviceByDeviceId st i = Some r \<Longrightarrow>
     r \<in> set (devices st) \<and> deviceid (heap st r) = Some i"
  by (simp add: store_ok_def)

lemma store_ok_mem:
  "store_ok st \<Longrightarrow> r \<in> set (devices st) \<Longrightarrow>
     r < next_ref st \<and> deviceByKey st (key (heap st r)) = Some r \<and>
     (\<exists>i. i \<noteq> [] \<and> deviceid (heap st r) = Some i \<and> deviceByDeviceId st i = Some r)"
  by (simp add: store_ok_def)

lemma store_ok_key_unique:
  assumes ok: "store_ok st" and k: "deviceByKey st k = Some r"
  shows "\<forall>x \<in> set (devices st). key (heap st x) = k \<longrightarrow> x = r"
proof (intro ballI impI)
  fix x assume x: "x \<in> set (devices st)" and kx: "key (heap st x) = k"
  from store_ok_mem [OF ok x] have "deviceByKey st (key (heap st x)) = Some x" by simp
  with kx k show "x = r" by simp
qed

lemma store_ok_deviceid:
  assumes ok: "store_ok st" and k: "deviceByKey st k = Some r"
  obtains i where "i \<noteq> []" "deviceid (heap st r) = Some i" "deviceByDeviceId st i = Some r"
proof -
  from store_ok_byKey [OF ok k] have "r \<in> set (devices st)" by simp
  from store_ok_mem [OF ok this] show thesis using that by blast
qed

lemma remove_device_fields:
  assumes ok: "store_ok st" and k: "deviceByKey st k = Some r"
  shows "devices (remove_device k r st) = remove1 r (devices st)"
    and "deviceByKey (remove_device k r st) = (deviceByKey st)(k := None)"
    and "deviceByDeviceId (remove_device k r st) =
           (deviceByDeviceId st)(the (deviceid (heap st r)) := None)"
    and "heap (remove_device k r st) = heap st"
    and "next_ref (remove_device k r st) = next_ref st"
    and "cacheDirty (remove_device k r st)"
proof -
  from store_ok_byKey [OF ok k] have r: "r \<in> set (devices st)" "key (heap st r) = k"
    by simp_all
  obtain i where i: "i \<noteq> []" "deviceid (heap st r) = Some i"
    using store_ok_deviceid [OF ok k] by blast
  have sp: "splice_first (\<lambda>d. key (heap st d) = k) (devices st) = remove1 r (devices st)"
    by (rule splice_first_remove1 [OF r(1) _ store_ok_key_unique [OF ok k]]) (rule r(2))
  have t: "truthy (deviceid (heap st r))" using i by (simp add: truthy_def)
  show "devices (remove_device k r st) = remove1 r (devices st)"
    by (simp add: remove_device_def Let_def sp t)
  show "deviceByKey (remove_device k r st) = (deviceByKey st)(k := None)"
    by (simp add: remove_device_def Let_def t)
  show "deviceByDeviceId (remove_device k r st) =
           (deviceByDeviceId st)(the (deviceid (heap st r)) := None)"
    by (simp add: remove_device_def Let_def t)
  show "heap (remove_device k r st) = heap st"
    by (simp add: remove_device_def Let_def t)
  show "next_ref (remove_device k r st) = next_ref st"
    by (simp add: remove_device_def Let_def t)
  show "cacheDirty (remove_device k r st)"
    by (simp add: remove_device_def Let_def t)
qed

lemma store_ok_remove_device:
  assumes ok: "store_ok st" and k: "deviceByKey st k = Some r"
  shows "store_ok (remove_device k r st)"
proof -
  let ?st' = "remove_device k r st"
  note f = remove_device_fields [OF ok k]
  from store_ok_byKey [OF ok k] have r: "r \<in> set (devices st)" "key (heap st r) = k"
    by simp_all
  obtain i where i: "i \<noteq> []" "deviceid (heap st r) = Some i" "deviceByDeviceId st i = Some r"
    using store_ok_deviceid [OF ok k] by blast
  have dist: "distinct (devices st)" using ok by (simp add: store_ok_def)
  have c1: "distinct (devices ?st')" using dist by (simp add: f)
  have c2: "x < next_ref ?st' \<and> deviceByKey ?st' (key (heap ?st' x)) = Some x \<and>
        (\<exists>j. j \<noteq> [] \<and> deviceid (heap ?st' x) = Some j \<and> deviceByDeviceId ?st' j = Some x)"
    if "x \<in> set (devices ?st')" for x
  proof -
    from that dist have x: "x \<in> set (devices st)" "x \<noteq> r" by (auto simp: f)
    from store_ok_mem [OF ok x(1)] obtain j where j: "x < next_ref st"
      "deviceByKey st (key (heap st x)) = Some x"
      "j \<noteq> []" "deviceid (heap st x) = Some j" "deviceByDeviceId st j = Some x" by blast
    have "key (heap st x) \<noteq> k" using j(2) k x(2) by auto
    moreover have "j \<noteq> i" using j(5) i(3) x(2) by auto
    ultimately show ?thesis using j i by (simp add: f)
  qed
  have c3: "x \<in> set (devices ?st') \<and> key (heap ?st' x) = k'"
    if "deviceByKey ?st' k' = Some x" for k' x
  proof -
    from that have ne: "k' \<noteq> k" and old: "deviceByKey st k' = Some x"
      by (auto simp: f split: if_splits)
    from store_ok_byKey [OF ok old] have x: "x \<in> set (devices st)" "key (heap st x) = k'"
      by simp_all
    with ne r have "x \<noteq> r" by auto
    with x dist show ?thesis by (simp add: f)
  qed
  have c4: "x \<in> set (devices ?st') \<and> deviceid (heap ?st' x) = Some j"
    if "deviceByDeviceId ?st' j = Some x" for j x
  proof -
    from that i have ne: "j \<noteq> i" and old: "deviceByDeviceId st j = Some x"
      by (auto simp: f split: if_splits)
    from store_ok_byId [OF ok old] have x: "x \<in> set (devices st)" "deviceid (heap st x) = Some j"
      by simp_all
    with ne i have "x \<noteq> r" by auto
    with x dist show ?thesis by (simp add: f)
  qed
  show ?thesis unfolding store_ok_def using c1 c2 c3 c4 by blast
qed

lemma force_disconnect_frame:
  "devices (force_disconnect r st) = devices st"
  "deviceByKey (force_disconnect r st) = deviceByKey st"
  "deviceByDeviceId (force_disconnect r st) = deviceByDeviceId st"
  "next_ref (force_disconnect r st) = next_ref st"
  "key (heap (force_disconnect r st) x) = key (heap st x)"
  "deviceid (heap (force_disconnect r st) x) = deviceid (heap st x)"
  by (simp_all add: force_disconnect_def on_disconnect_def Let_def split: option.splits)

lemma store_ok_delete:
  assumes "store_ok st"
  shows "store_ok (snd (delete_device k st))"
proof (cases "deviceByKey st k")
  case None
  with assms show ?thesis by (simp add: delete_device_def)
next
  case (Some r)
  have "store_ok (force_disconnect r st)" using assms by (simp add: store_ok_force_disconnect)
  moreover have "deviceByKey (force_disconnect r st) k = Some r"
    using Some by (simp add: force_disconnect_frame)
  ultimately have "store_ok (remove_device k r (force_disconnect r st))"
    by (rule store_ok_remove_device)
  with Some show ?thesis by (simp add: delete_device_def)
qed

lemma store_ok_step:
  assumes "store_ok st"
    and "case e of CreateDevice k x b8 b12 \<Rightarrow> deviceByDeviceId st (generateDeviceId b12) = None
         | _ \<Rightarrow> True"
  shows "store_ok (step e st)"
  using assms
  by (cases e)
    (simp_all add: store_ok_create store_ok_delete store_ok_send store_ok_connect
      store_ok_on_sms_response store_ok_on_disconnect store_ok_timer_fire store_ok_saveDevices)

lemma store_ok_run: "store_ok st \<Longrightarrow> fresh_ids es st \<Longrightarrow> store_ok (run es st)"
  unfolding run_def
  by (induction es arbitrary: st) (simp_all add: store_ok_step)

lemma store_ok_st_created: "store_ok st_created"
  unfolding st_created_def
  by (rule store_ok_create [OF store_ok_init]) (simp add: init_state_def)

lemma store_ok_st_bound: "store_ok st_bound"
  unfolding st_bound_def by (simp add: store_ok_connect store_ok_st_created)

text \<open>
  C9. After any run of events from the state of a fresh process, and so after any
  sequence of creations and deletions from the empty store, the list and the two indices
  are consistent, and keys and deviceids are unique among the registered devices. The
  deviceid that the random source gives at a creation is taken not to be in use.
\<close>

theorem registry_consistent:
  assumes "fresh_ids es (init_state f)"
  shows "consistent (run es (init_state f)) \<and>
         unique_keys (run es (init_state f)) \<and>
         unique_deviceids (run es (init_state f))"
proof -
  have "store_ok (run es (init_state f))"
    using store_ok_init assms by (rule store_ok_run)
  then show ?thesis
    by (simp add: store_ok_consistent store_ok_unique_keys store_ok_unique_deviceids)
qed

theorem registry_consistent_witness:
  "fresh_ids es_registry (init_state Missing) \<and>
   devices (run es_registry (init_state Missing)) = [1] \<and>
   consistent (run es_registry (init_state Missing)) \<and>
   unique_keys (run es_registry (init_state Missing)) \<and>
   unique_deviceids (run es_registry (init_state Missing))"
proof -
  have fresh: "fresh_ids es_registry (init_state Missing)"
    by (simp add: es_registry_def init_state_def create_device_def delete_device_def
        generateDeviceId_def generateId_def hex_def hexdigit_def truthy_def Let_def)
  have "devices (run es_registry (init_state Missing)) = [1]"
    by (simp add: run_def es_registry_def init_state_def create_device_def delete_device_def
        remove_device_def force_disconnect_def generateDeviceId_def generateId_def hex_def
        hexdigit_def truthy_def Let_def)
  with fresh registry_consistent [OF fresh] show ?thesis by simp
qed

subsection \<open>Create and delete\<close>

text \<open>
  C5, as the code has it. A creation with no key, or with the empty string as key, is
  refused with 400 and changes nothing. With a key that is registered it is refused with
  409 and changes nothing. Otherwise it takes an id and a deviceid from the random source,
  appends the new object to the list, enters it into both indices, sets the dirty flag and
  answers 201 with the id and the deviceid.
\<close>

theorem create_outcomes:
  "(\<not> truthy k \<longrightarrow>
      create_device k e b8 b12 st = ((400, ErrorBody ''Key is required''), st)) \<and>
   (truthy k \<and> deviceByKey st (the k) \<noteq> None \<longrightarrow>
      create_device k e b8 b12 st = ((409, ErrorBody ''Key already exists''), st)) \<and>
   (truthy k \<and> deviceByKey st (the k) = None \<longrightarrow>
      (let (resp, st') = create_device k e b8 b12 st; r = next_ref st in
         resp = (201, CreatedBody ''Device key created successfully''
                        (generateId b8) (generateDeviceId b12)) \<and>
         devices st' = devices st @ [r] \<and>
         deviceByKey st' = (deviceByKey st)(the k \<mapsto> r) \<and>
         deviceByDeviceId st' = (deviceByDeviceId st)(generateDeviceId b12 \<mapsto> r) \<and>
         heap st' r = \<lparr>dev_id = generateId b8, key = the k, deviceid = Some (generateDeviceId b12),
                        expDate = (if truthy e then e else None), socketid = None\<rparr> \<and>
         (\<forall>r'. r' \<noteq> r \<longrightarrow> heap st' r' = heap st r') \<and>
         cacheDirty st'))"
  by (simp add: create_device_def Let_def)

theorem create_outcomes_witness:
  "create_device None None [1, 35, 69, 103, 137, 171, 205, 239]
     [10, 255, 0, 17, 34, 51, 68, 85, 102, 119, 136, 153] (init_state Missing) =
     ((400, ErrorBody ''Key is required''), init_state Missing) \<and>
   create_device (Some ''abc123'') None [2, 35, 69, 103, 137, 171, 205, 239]
     [11, 255, 0, 17, 34, 51, 68, 85, 102, 119, 136, 153] st_created =
     ((409, ErrorBody ''Key already exists''), st_created) \<and>
   fst (create_device (Some ''abc123'') None [1, 35, 69, 103, 137, 171, 205, 239]
          [10, 255, 0, 17, 34, 51, 68, 85, 102, 119, 136, 153] (init_state Missing)) =
     (201, CreatedBody ''Device key created successfully'' ''0123456789abcdef'' the_deviceid) \<and>
   devices st_created = [0] \<and>
   deviceByKey st_created ''abc123'' = Some 0 \<and>
   deviceByDeviceId st_created the_deviceid = Some 0 \<and>
   cacheDirty st_created"
proof -
  have reg: "truthy (Some ''abc123'') \<and> deviceByKey st_created (the (Some ''abc123'')) \<noteq> None"
    by (simp add: scenario_defs create_device_def Let_def)
  from create_outcomes [of None None "[1, 35, 69, 103, 137, 171, 205, 239]"
         "[10, 255, 0, 17, 34, 51, 68, 85, 102, 119, 136, 153]" "init_state Missing"]
  have a: "create_device None None [1, 35, 69, 103, 137, 171, 205, 239]
     [10, 255, 0, 17, 34, 51, 68, 85, 102, 119, 136, 153] (init_state Missing) =
     ((400, ErrorBody ''Key is required''), init_state Missing)"
    by (simp add: truthy_def)
  from reg create_outcomes [of "Some ''abc123''" None "[2, 35, 69, 103, 137, 171, 205, 239]"
         "[11, 255, 0, 17, 34, 51, 68, 85, 102, 119, 136, 153]" st_created]
  have b: "create_device (Some ''abc123'') None [2, 35, 69, 103, 137, 171, 205, 239]
     [11, 255, 0, 17, 34, 51, 68, 85, 102, 119, 136, 153] st_created =
     ((409, ErrorBody ''Key already exists''), st_created)"
    by blast
  have c: "fst (create_device (Some ''abc123'') None [1, 35, 69, 103, 137, 171, 205, 239]
          [10, 255, 0, 17, 34, 51, 68, 85, 102, 119, 136, 153] (init_state Missing)) =
     (201, CreatedBody ''Device key created successfully'' ''0123456789abcdef'' the_deviceid) \<and>
     devices st_created = [0] \<and>
     deviceByKey st_created ''abc123'' = Some 0 \<and>
     deviceByDeviceId st_created the_deviceid = Some 0 \<and>
     cacheDirty st_created"
    by (simp add: scenario_defs create_device_def Let_def)
  from a b c show ?thesis by simp
qed

text \<open>
  The claim of C5 as it was stated fails for a request whose key is the empty string:
  the key is not registered, and nothing is created.
\<close>

theorem create_empty_key_counterexample:
  "deviceByKey (init_state Missing) '''' = None \<and>
   create_device (Some '''') None [1, 35, 69, 103, 137, 171, 205, 239]
     [10, 255, 0, 17, 34, 51, 68, 85, 102, 119, 136, 153] (init_state Missing) =
   ((400, ErrorBody ''Key is required''), init_state Missing)"
  by (simp add: create_device_def init_state_def truthy_def)

lemma outbox_remove_device: "outbox (remove_device k r st) = outbox st"
  by (simp add: remove_device_def Let_def)

lemma outbox_force_disconnect:
  "outbox (force_disconnect r st) =
     outbox st @ (if truthy (socketid (heap st r))
                  then [(Room (the (socketid (heap st r))), ForceDisconnect ''Device key was deleted'')]
                  else [])"
  by (simp add: force_disconnect_def on_disconnect_def Let_def split: option.splits)

text \<open>
  C6. In a consistent registry, a deletion of an unknown key answers 404 and changes
  nothing. A deletion of a registered key first runs the notification: if the device has
  a socketid, exactly one \<^verbatim>\<open>force_disconnect\<close> with the reason of the deletion is
  pushed to that socket, and nothing is pushed otherwise; at that point the object is
  still in the list and in both indices. Then the object leaves the list and both
  indices, nothing more is pushed, and the dirty flag is set.
\<close>

theorem delete_outcomes:
  assumes ok: "store_ok st"
  shows "(deviceByKey st k = None \<longrightarrow>
            delete_device k st = ((404, ErrorBody ''Device key not found''), st)) \<and>
         (\<forall>r. deviceByKey st k = Some r \<longrightarrow>
            fst (delete_device k st) = (200, MessageBody ''Device key deleted successfully'') \<and>
            snd (delete_device k st) = remove_device k r (force_disconnect r st) \<and>
            outbox (force_disconnect r st) =
              outbox st @ (if truthy (socketid (heap st r))
                           then [(Room (the (socketid (heap st r))),
                                  ForceDisconnect ''Device key was deleted'')]
                           else []) \<and>
            r \<in> set (devices (force_disconnect r st)) \<and>
            deviceByKey (force_disconnect r st) k = Some r \<and>
            deviceByDeviceId (force_disconnect r st) (the (deviceid (heap st r))) = Some r \<and>
            outbox (snd (delete_device k st)) = outbox (force_disconnect r st) \<and>
            devices (snd (delete_device k st)) = remove1 r (devices st) \<and>
            r \<notin> set (devices (snd (delete_device k st))) \<and>
            deviceByKey (snd (delete_device k st)) = (deviceByKey st)(k := None) \<and>
            deviceByDeviceId (snd (delete_device k st)) =
              (deviceByDeviceId st)(the (deviceid (heap st r)) := None) \<and>
            (\<forall>k'. deviceByKey (snd (delete_device k st)) k' \<noteq> Some r) \<and>
            (\<forall>i. deviceByDeviceId (snd (delete_device k st)) i \<noteq> Some r) \<and>
            cacheDirty (snd (delete_device k st)))"
proof (intro conjI allI impI)
  assume "deviceByKey st k = None"
  then show "delete_device k st = ((404, ErrorBody ''Device key not found''), st)"
    by (simp add: delete_device_def)
next
  fix r assume k: "deviceByKey st k = Some r"
  let ?st1 = "force_disconnect r st"
  let ?st' = "snd (delete_device k st)"
  have ok1: "store_ok ?st1" using ok by (simp add: store_ok_force_disconnect)
  have k1: "deviceByKey ?st1 k = Some r" using k by (simp add: force_disconnect_frame)
  have st': "?st' = remove_device k r ?st1" using k by (simp add: delete_device_def)
  note f = remove_device_fields [OF ok1 k1]
  have did: "deviceid (heap ?st1 r) = deviceid (heap st r)" by (simp add: force_disconnect_frame)
  obtain i where i: "i \<noteq> []" "deviceid (heap st r) = Some i" "deviceByDeviceId st i = Some r"
    using store_ok_deviceid [OF ok k] by blast
  have dist: "distinct (devices st)" using ok by (simp add: store_ok_def)
  show "fst (delete_device k st) = (200, MessageBody ''Device key deleted successfully'')"
    using k by (simp add: delete_device_def)
  show "?st' = remove_device k r ?st1" by (rule st')
  show "outbox ?st1 = outbox st @ (if truthy (socketid (heap st r))
                           then [(Room (the (socketid (heap st r))),
                                  ForceDisconnect ''Device key was deleted'')]
                           else [])"
    by (rule outbox_force_disconnect)
  show "r \<in> set (devices ?st1)" using store_ok_byKey [OF ok k] by (simp add: force_disconnect_frame)
  show "deviceByKey ?st1 k = Some r" by (rule k1)
  show "deviceByDeviceId ?st1 (the (deviceid (heap st r))) = Some r"
    using i by (simp add: force_disconnect_frame)
  show "outbox ?st' = outbox ?st1" by (simp add: st' outbox_remove_device)
  show dev: "devices ?st' = remove1 r (devices st)" by (simp add: st' f force_disconnect_frame)
  show "r \<notin> set (devices ?st')" using dist by (simp add: dev)
  show bk: "deviceByKey ?st' = (deviceByKey st)(k := None)" by (simp add: st' f force_disconnect_frame)
  show bi: "deviceByDeviceId ?st' = (deviceByDeviceId st)(the (deviceid (heap st r)) := None)"
    by (simp add: st' f did force_disconnect_frame)
  show "deviceByKey ?st' k' \<noteq> Some r" for k'
  proof
    assume a: "deviceByKey ?st' k' = Some r"
    then have "k' \<noteq> k" "deviceByKey st k' = Some r" by (auto simp: bk split: if_splits)
    with store_ok_byKey [OF ok this(2)] store_ok_byKey [OF ok k] show False by simp
  qed
  show "deviceByDeviceId ?st' j \<noteq> Some r" for j
  proof
    assume a: "deviceByDeviceId ?st' j = Some r"
    then have "j \<noteq> i" "deviceByDeviceId st j = Some r" using i by (auto simp: bi split: if_splits)
    with store_ok_byId [OF ok this(2)] i show False by simp
  qed
  show "cacheDirty ?st'" by (simp add: st' f)
qed

theorem delete_outcomes_witness:
  "store_ok st_bound \<and>
   delete_device ''nokey'' st_bound = ((404, ErrorBody ''Device key not found''), st_bound) \<and>
   fst (delete_device ''abc123'' st_bound) = (200, MessageBody ''Device key deleted successfully'') \<and>
   outbox (snd (delete_device ''abc123'' st_bound)) =
     outbox st_bound @ [(Room ''sockA'', ForceDisconnect ''Device key was deleted'')] \<and>
   devices (snd (delete_device ''abc123'' st_bound)) = [] \<and>
   deviceByKey (snd (delete_device ''abc123'' st_bound)) ''abc123'' = None \<and>
   deviceByDeviceId (snd (delete_device ''abc123'' st_bound)) the_deviceid = None \<and>
   cacheDirty (snd (delete_device ''abc123'' st_bound))"
proof -
  have none: "deviceByKey st_bound ''nokey'' = None"
    by (simp add: scenario_defs handler_defs Let_def)
  have some: "deviceByKey st_bound ''abc123'' = Some 0"
    by (simp add: scenario_defs handler_defs Let_def)
  have obj: "socketid (heap st_bound 0) = Some ''sockA''"
    "deviceid (heap st_bound 0) = Some the_deviceid" "devices st_bound = [0]"
    by (simp_all add: scenario_defs handler_defs Let_def)
  from delete_outcomes [OF store_ok_st_bound, of "''nokey''"] none
  have a: "delete_device ''nokey'' st_bound = ((404, ErrorBody ''Device key not found''), st_bound)"
    by blast
  from delete_outcomes [OF store_ok_st_bound, of "''abc123''"] some
  have b: "fst (delete_device ''abc123'' st_bound) =
             (200, MessageBody ''Device key deleted successfully'') \<and>
           outbox (force_disconnect 0 st_bound) =
              outbox st_bound @ (if truthy (socketid (heap st_bound 0))
                           then [(Room (the (socketid (heap st_bound 0))),
                                  ForceDisconnect ''Device key was deleted'')]
                           else []) \<and>
           outbox (snd (delete_device ''abc123'' st_bound)) = outbox (force_disconnect 0 st_bound) \<and>
           devices (snd (delete_device ''abc123'' st_bound)) = remove1 0 (devices st_bound) \<and>
           deviceByKey (snd (delete_device ''abc123'' st_bound)) =
             (deviceByKey st_bound)(''abc123'' := None) \<and>
           deviceByDeviceId (snd (delete_device ''abc123'' st_bound)) =
              (deviceByDeviceId st_bound)(the (deviceid (heap st_bound 0)) := None) \<and>
           cacheDirty (snd (delete_device ''abc123'' st_bound))"
    by blast
  from a b obj store_ok_st_bound show ?thesis by (simp add: truthy_def)
qed

subsection \<open>The gateway\<close>

text \<open>
  C2, as the code has it. The \<^verbatim>\<open>disconnect\<close> handler sets the \<^verbatim>\<open>socketid\<close> of the
  socket's device object to null and marks the store dirty, whether or not the field
  still names this socket. So when a second connection binds to the same deviceid the
  binding names the second connection, and the later disconnect of the first connection
  leaves the binding null.
\<close>

theorem disconnect_clears_binding:
  assumes "deviceByDeviceId st d = Some r" and "d \<noteq> []" and "s1 \<noteq> s2"
  shows "socketid (heap (snd (connect s1 (Some d) st)) r) = Some s1 \<and>
         socketid (heap (snd (connect s2 (Some d) (snd (connect s1 (Some d) st)))) r) = Some s2 \<and>
         socketid (heap (on_disconnect s1
           (snd (connect s2 (Some d) (snd (connect s1 (Some d) st))))) r) = None \<and>
         cacheDirty (on_disconnect s1 (snd (connect s2 (Some d) (snd (connect s1 (Some d) st))))) \<and>
         (\<forall>st' sid s. sockets st' sid = Some s \<longrightarrow>
            socketid (heap (on_disconnect sid st') (deviceObj s)) = None \<and>
            cacheDirty (on_disconnect sid st'))"
  using assms
  by (simp add: connect_def io_use_def on_connection_def on_disconnect_def truthy_def)

theorem disconnect_clears_binding_witness:
  "socketid (heap st_bound 0) = Some ''sockA'' \<and>
   socketid (heap st_rebound 0) = Some ''sockB'' \<and>
   socketid (heap (on_disconnect ''sockA'' st_rebound) 0) = None \<and>
   cacheDirty (on_disconnect ''sockA'' st_rebound)"
proof -
  have d: "deviceByDeviceId st_created the_deviceid = Some 0"
    by (simp add: scenario_defs handler_defs Let_def)
  have ne: "the_deviceid \<noteq> []" "''sockA'' \<noteq> ''sockB''"
    by (simp_all add: the_deviceid_def)
  from disconnect_clears_binding [OF d ne] show ?thesis
    by (simp add: st_bound_def st_rebound_def)
qed

text \<open>
  The claim of C2 as it was stated fails: device 0 is bound to \<^verbatim>\<open>sockA\<close>, then to
  \<^verbatim>\<open>sockB\<close>; when \<^verbatim>\<open>sockA\<close> disconnects, the binding to \<^verbatim>\<open>sockB\<close> is gone.
\<close>

theorem stale_disconnect_counterexample:
  "socketid (heap st_rebound 0) = Some ''sockB'' \<and>
   socketid (heap (on_disconnect ''sockA'' st_rebound) 0) \<noteq> Some ''sockB''"
  by (simp add: scenario_defs handler_defs Let_def)

text \<open>
  C10. Expiry is looked at by \<^verbatim>\<open>/register\<close> alone. For a registered device whose
  \<^verbatim>\<open>expDate\<close> has passed, \<^verbatim>\<open>/register\<close> with its key answers 400 ``Key has expired'';
  a socket that authenticates with its deviceid is accepted and bound; and \<^verbatim>\<open>/send\<close> to
  its deviceid goes the usual way: the command is pushed if the device is connected, 404
  ``Device not connected'' otherwise, and never an answer about expiry.
\<close>

theorem expiry_only_at_register:
  assumes "deviceByKey st k = Some r" and "k \<noteq> []"
    and "deviceByDeviceId st d = Some r" and "d \<noteq> []"
    and "expired parseDate now (heap st r)"
  shows "register parseDate now (Some k) st = ((400, ErrorBody ''Key has expired''), st) \<and>
         fst (connect sid (Some d) st) = None \<and>
         socketid (heap (snd (connect sid (Some d) st)) r) = Some sid \<and>
         sockets (snd (connect sid (Some d) st)) sid = Some \<lparr>s_deviceId = d, deviceObj = r\<rparr> \<and>
         (truthy n \<and> truthy t \<and> truthy (socketid (heap st r)) \<longrightarrow>
            fst (send (Some d) n t now rnd st) = None \<and>
            outbox (snd (send (Some d) n t now rnd st)) =
              outbox st @ [(Room (the (socketid (heap st r))),
                            InsertSms (the n) (the t) (make_requestId d now rnd))]) \<and>
         (truthy n \<and> truthy t \<and> \<not> truthy (socketid (heap st r)) \<longrightarrow>
            fst (send (Some d) n t now rnd st) = Some (404, ErrorBody ''Device not connected'')) \<and>
         fst (send (Some d) n t now rnd st) \<noteq> Some (400, ErrorBody ''Key has expired'')"
  using assms
  by (auto simp add: register_def isKeyValid_def truthy_def expired_def connect_def io_use_def
      on_connection_def send_def Let_def split: option.splits)

theorem expiry_only_at_register_witness:
  "expired parse2020 1700000000000 (heap st_expired 0) \<and>
   register parse2020 1700000000000 (Some ''abc123'') st_expired =
     ((400, ErrorBody ''Key has expired''), st_expired) \<and>
   fst (connect ''sockA'' (Some the_deviceid) st_expired) = None \<and>
   socketid (heap (snd (connect ''sockA'' (Some the_deviceid) st_expired)) 0) = Some ''sockA'' \<and>
   fst (send (Some the_deviceid) (Some ''+15551234567'') (Some ''hi'') 1700000000000 ''k3x9q2m1z''
          (snd (connect ''sockA'' (Some the_deviceid) st_expired))) = None"
proof -
  let ?st2 = "snd (connect ''sockA'' (Some the_deviceid) st_expired)"
  have k: "deviceByKey st_expired ''abc123'' = Some 0"
    by (simp add: scenario_defs handler_defs Let_def)
  have d: "deviceByDeviceId st_expired the_deviceid = Some 0"
    by (simp add: scenario_defs handler_defs Let_def)
  have e: "expired parse2020 1700000000000 (heap st_expired 0)"
    by (simp add: scenario_defs handler_defs Let_def expired_def parse2020_def)
  have ne: "''abc123'' \<noteq> []" "the_deviceid \<noteq> []"
    by (simp_all add: the_deviceid_def)
  have k2: "deviceByKey ?st2 ''abc123'' = Some 0"
    by (simp add: scenario_defs handler_defs Let_def)
  have d2: "deviceByDeviceId ?st2 the_deviceid = Some 0"
    by (simp add: scenario_defs handler_defs Let_def)
  have e2: "expired parse2020 1700000000000 (heap ?st2 0)"
    by (simp add: scenario_defs handler_defs Let_def expired_def parse2020_def)
  have s2: "truthy (socketid (heap ?st2 0))"
    by (simp add: scenario_defs handler_defs Let_def)
  have t: "truthy (Some ''+15551234567'')" "truthy (Some ''hi'')"
    by (simp_all add: truthy_def)
  from expiry_only_at_register [where sid = "''sockA''", OF k ne(1) d ne(2) e]
       expiry_only_at_register [where n = "Some ''+15551234567''" and t = "Some ''hi''"
         and rnd = "''k3x9q2m1z''", OF k2 ne(1) d2 ne(2) e2]
       e s2 t
  show ?thesis by simp
qed

subsection \<open>Persistence\<close>

lemma clear_socketids_apply:
  "clear_socketids rs h r = (if r \<in> set rs then (h r)\<lparr>socketid := None\<rparr> else h r)"
  unfolding clear_socketids_def
  by (induction rs arbitrary: h) auto

text \<open>
  C3, as the code has it. When the dirty flag is set and the write succeeds, the flush
  at SIGINT writes every record of the list with a null \<^verbatim>\<open>socketid\<close>, and a periodic
  flush writes every record of the list as it is, the \<^verbatim>\<open>socketid\<close> of a connected
  device included.
\<close>

theorem flush_contents:
  assumes "cacheDirty st"
  shows "devices_file (on_sigint True st) =
           Content (map (\<lambda>r. (heap st r)\<lparr>socketid := None\<rparr>) (devices st)) \<and>
         devices_file (saveDevices True st) = Content (map (heap st) (devices st))"
  using assms by (simp add: on_sigint_def saveDevices_def clear_socketids_apply)

theorem flush_contents_witness:
  "cacheDirty st_bound \<and>
   devices_file (on_sigint True st_bound) =
     Content [\<lparr>dev_id = ''0123456789abcdef'', key = ''abc123'', deviceid = Some the_deviceid,
               expDate = None, socketid = None\<rparr>] \<and>
   devices_file (saveDevices True st_bound) =
     Content [\<lparr>dev_id = ''0123456789abcdef'', key = ''abc123'', deviceid = Some the_deviceid,
               expDate = None, socketid = Some ''sockA''\<rparr>]"
proof -
  have dirty: "cacheDirty st_bound"
    by (simp add: scenario_defs handler_defs Let_def)
  have obj: "devices st_bound = [0]"
    "heap st_bound 0 = \<lparr>dev_id = ''0123456789abcdef'', key = ''abc123'',
       deviceid = Some the_deviceid, expDate = None, socketid = Some ''sockA''\<rparr>"
    by (simp_all add: scenario_defs handler_defs Let_def)
  from flush_contents [OF dirty] dirty obj show ?thesis by simp
qed

text \<open>
  The claim of C3 as it was stated fails: the periodic flush of a state with a connected
  device writes that device's record with its \<^verbatim>\<open>socketid\<close>.
\<close>

theorem flush_counterexample:
  "devices_file (saveDevices True st_bound) =
     Content [\<lparr>dev_id = ''0123456789abcdef'', key = ''abc123'', deviceid = Some the_deviceid,
               expDate = None, socketid = Some ''sockA''\<rparr>]"
  by (simp add: scenario_defs handler_defs Let_def)










lemma index_device_frame:
  "heap (index_device r st) = heap st" "devices (index_device r st) = devices st"
  "next_ref (index_device r st) = next_ref st"
  by (simp_all add: index_device_def Let_def)


lemma fold_index_device_frame:
  "heap (fold index_device rs st) = heap st \<and> devices (fold index_device rs st) = devices st \<and>
   next_ref (fold index_device rs st) = next_ref st"
  by (induction rs arbitrary: st) (simp_all add: index_device_frame)








subsection \<open>The pending table and the calls\<close>

lemma calls_ok_cong:
  assumes "pendingRequests st' = pendingRequests st" "calls st' = calls st"
    "http_out st' = http_out st"
  shows "calls_ok st' = calls_ok st"
  using assms by (simp add: calls_ok_def)

lemma calls_ok_init: "calls_ok (init_state f)"
  by (simp add: calls_ok_def init_state_def)

lemma calls_ok_create: "calls_ok (snd (create_device k e b8 b12 st)) = calls_ok st"
  by (rule calls_ok_cong) (simp_all add: create_device_def Let_def)

lemma calls_ok_on_disconnect: "calls_ok (on_disconnect sid st) = calls_ok st"
  by (rule calls_ok_cong) (simp_all add: on_disconnect_def split: option.splits)

lemma calls_ok_force_disconnect: "calls_ok (force_disconnect r st) = calls_ok st"
  by (rule calls_ok_cong)
    (simp_all add: force_disconnect_def on_disconnect_def Let_def split: option.splits)

lemma calls_ok_remove_device: "calls_ok (remove_device k r st) = calls_ok st"
  by (rule calls_ok_cong) (simp_all add: remove_device_def Let_def)

lemma calls_ok_delete: "calls_ok (snd (delete_device k st)) = calls_ok st"
  by (simp add: delete_device_def calls_ok_remove_device calls_ok_force_disconnect
      split: option.splits)

lemma calls_ok_connect: "calls_ok (snd (connect sid d st)) = calls_ok st"
  by (rule calls_ok_cong) (simp_all add: connect_def on_connection_def split: sum.splits)

lemma calls_ok_saveDevices: "calls_ok (saveDevices w st) = calls_ok st"
  by (rule calls_ok_cong) (simp_all add: saveDevices_def)

lemma calls_ok_error_log: "calls_ok (st\<lparr>error_log := l\<rparr>) = calls_ok st"
  by (simp add: calls_ok_def)

lemma calls_ok_send:
  assumes "calls_ok st"
  shows "calls_ok (snd (send d n t now rnd st))"
proof (cases "fst (send d n t now rnd st)")
  case (Some a)
  then have "snd (send d n t now rnd st) = st"
    by (auto simp: send_def Let_def split: if_splits option.splits)
  with assms show ?thesis by simp
next
  case None
  let ?rid = "make_requestId (the d) now rnd"
  let ?new = "\<lparr>c_requestId = ?rid, timer_armed = True, due = now + 4500, settled = Pending\<rparr>"
  from None have f:
    "calls (snd (send d n t now rnd st)) = calls st @ [?new]"
    "pendingRequests (snd (send d n t now rnd st)) = (pendingRequests st)(?rid \<mapsto> length (calls st))"
    "http_out (snd (send d n t now rnd st)) = http_out st"
    by (auto simp: send_def Let_def split: if_splits option.splits)
  show ?thesis
    using assms unfolding calls_ok_def f
    by (auto simp: nth_append less_Suc_eq)
qed

lemma calls_ok_settle:
  assumes ok: "calls_ok st" and c: "c < length (calls st)"
    and pend: "settled (calls st ! c) = Pending"
    and name: "c_requestId cl = c_requestId (calls st ! c)"
    and fin: "settled cl \<noteq> Pending"
    and pr: "\<forall>rid x. pr rid = Some x \<longrightarrow> pendingRequests st rid = Some x"
  shows "calls_ok (st\<lparr>pendingRequests := pr, calls := (calls st)[c := cl],
                      http_out := http_out st @ [(c, resp)]\<rparr>)"
proof -
  have notin: "c \<notin> fst ` set (http_out st)"
    using ok pend unfolding calls_ok_def by force
  have a: "\<forall>rid x. pr rid = Some x \<longrightarrow>
      x < length ((calls st)[c := cl]) \<and> c_requestId ((calls st)[c := cl] ! x) = rid"
    using ok pr name c unfolding calls_ok_def by (auto simp: nth_list_update)
  have b: "\<forall>x \<in> set (http_out st @ [(c, resp)]).
      fst x < length ((calls st)[c := cl]) \<and> settled ((calls st)[c := cl] ! fst x) \<noteq> Pending"
    using ok c fin unfolding calls_ok_def by (auto simp: nth_list_update)
  have d: "distinct (map fst (http_out st @ [(c, resp)]))"
    using ok notin unfolding calls_ok_def by simp
  show ?thesis unfolding calls_ok_def using a b d fin c by simp
qed

lemma calls_ok_touch:
  assumes ok: "calls_ok st" and c: "c < length (calls st)"
    and name: "c_requestId cl = c_requestId (calls st ! c)"
    and same: "settled cl = settled (calls st ! c)"
    and pr: "\<forall>rid x. pr rid = Some x \<longrightarrow> pendingRequests st rid = Some x"
  shows "calls_ok (st\<lparr>pendingRequests := pr, calls := (calls st)[c := cl]\<rparr>)"
  using assms unfolding calls_ok_def by (auto simp: nth_list_update)

lemma calls_ok_resolver:
  assumes ok: "calls_ok st"
  shows "calls_ok (resolver c resp st)"
proof (cases "c < length (calls st)")
  case False
  with ok show ?thesis by (simp add: resolver_def)
next
  case True
  show ?thesis
  proof (cases "settled (calls st ! c) = Pending")
    case p: True
    from calls_ok_settle [OF ok True p, where pr = "pendingRequests st"
        and cl = "(calls st ! c)\<lparr>timer_armed := False, settled := Fulfilled resp\<rparr>"]
    show ?thesis using True p by (simp add: resolver_def Let_def)
  next
    case np: False
    from calls_ok_touch [OF ok True, where pr = "pendingRequests st"
        and cl = "(calls st ! c)\<lparr>timer_armed := False\<rparr>"]
    show ?thesis using True np by (simp add: resolver_def Let_def split: promise.splits)
  qed
qed

lemma calls_ok_on_sms_response: "calls_ok st \<Longrightarrow> calls_ok (on_sms_response p st)"
  by (simp add: on_sms_response_def calls_ok_resolver calls_ok_error_log split: option.splits)

lemma calls_ok_timer_fire:
  assumes ok: "calls_ok st"
  shows "calls_ok (timer_fire now c st)"
proof (cases "c < length (calls st) \<and> timer_armed (calls st ! c) \<and> due (calls st ! c) \<le> now")
  case False
  then have "timer_fire now c st = st" unfolding timer_fire_def by (rule if_not_P)
  with ok show ?thesis by simp
next
  case True
  then have c: "c < length (calls st)" by simp
  let ?pr = "(pendingRequests st)(c_requestId (calls st ! c) := None)"
  have pr: "\<forall>rid x. ?pr rid = Some x \<longrightarrow> pendingRequests st rid = Some x"
    by (simp split: if_splits)
  show ?thesis
  proof (cases "settled (calls st ! c) = Pending")
    case p: True
    have "calls_ok (st\<lparr>pendingRequests := ?pr,
        calls := (calls st)[c := (calls st ! c)\<lparr>timer_armed := False,
                settled := Rejected ''Device did not respond in time''\<rparr>],
        http_out := http_out st @
          [(c, (408, TimeoutBody ''Device did not respond in time'' False))]\<rparr>)"
      by (rule calls_ok_settle [OF ok c p _ _ pr]) simp_all
    then show ?thesis using True p by (simp add: timer_fire_def Let_def)
  next
    case np: False
    have "calls_ok (st\<lparr>pendingRequests := ?pr,
        calls := (calls st)[c := (calls st ! c)\<lparr>timer_armed := False\<rparr>]\<rparr>)"
      by (rule calls_ok_touch [OF ok c _ _ pr]) simp_all
    then show ?thesis using True np by (simp add: timer_fire_def Let_def split: promise.splits)
  qed
qed

lemma calls_ok_step: "calls_ok st \<Longrightarrow> calls_ok (step e st)"
  by (cases e)
    (simp_all add: calls_ok_create calls_ok_delete calls_ok_send calls_ok_connect
      calls_ok_on_sms_response calls_ok_on_disconnect calls_ok_timer_fire calls_ok_saveDevices)

lemma calls_ok_run: "calls_ok st \<Longrightarrow> calls_ok (run es st)"
  unfolding run_def by (induction es arbitrary: st) (simp_all add: calls_ok_step)

lemma in_flight_cong:
  assumes "pendingRequests st' = pendingRequests st" "calls st' = calls st"
    "http_out st' = http_out st"
  shows "in_flight rid c d st' = in_flight rid c d st"
  using assms by (simp add: in_flight_def)

lemma in_flight_error_log: "in_flight rid c d (st\<lparr>error_log := l\<rparr>) = in_flight rid c d st"
  by (simp add: in_flight_def)

lemma in_flight_create:
  "in_flight rid c d (snd (create_device k e b8 b12 st)) = in_flight rid c d st"
  by (rule in_flight_cong) (simp_all add: create_device_def Let_def)

lemma in_flight_on_disconnect: "in_flight rid c d (on_disconnect sid st) = in_flight rid c d st"
  by (rule in_flight_cong) (simp_all add: on_disconnect_def split: option.splits)

lemma in_flight_delete: "in_flight rid c d (snd (delete_device k st)) = in_flight rid c d st"
  by (rule in_flight_cong)
    (simp_all add: delete_device_def remove_device_def force_disconnect_def on_disconnect_def
      Let_def split: option.splits)

lemma in_flight_connect: "in_flight rid c d (snd (connect sid dd st)) = in_flight rid c d st"
  by (rule in_flight_cong) (simp_all add: connect_def on_connection_def split: sum.splits)

lemma in_flight_saveDevices: "in_flight rid c d (saveDevices w st) = in_flight rid c d st"
  by (rule in_flight_cong) (simp_all add: saveDevices_def)

lemma in_flightD:
  assumes "in_flight rid c d st"
  shows "c < length (calls st)"
    and "calls st ! c = \<lparr>c_requestId = rid, timer_armed = True, due = d, settled = Pending\<rparr>"
    and "pendingRequests st rid = Some c"
    and "pendingRequests st rid' = Some c \<Longrightarrow> rid' = rid"
    and "c' < length (calls st) \<Longrightarrow> c_requestId (calls st ! c') = rid \<Longrightarrow> c' = c"
    and "c \<notin> fst ` set (http_out st)"
  using assms unfolding in_flight_def by blast+

lemma in_flightI:
  assumes "c < length (calls st)"
    and "calls st ! c = \<lparr>c_requestId = rid, timer_armed = True, due = d, settled = Pending\<rparr>"
    and "pendingRequests st rid = Some c"
    and "\<And>rid'. pendingRequests st rid' = Some c \<Longrightarrow> rid' = rid"
    and "\<And>c'. c' < length (calls st) \<Longrightarrow> c_requestId (calls st ! c') = rid \<Longrightarrow> c' = c"
    and "c \<notin> fst ` set (http_out st)"
  shows "in_flight rid c d st"
  unfolding in_flight_def using assms by blast

lemma in_flight_send:
  assumes fl: "in_flight rid c d st" and other: "\<not> concerns rid c (Send dd n t now rnd)"
  shows "in_flight rid c d (snd (send dd n t now rnd st))"
proof (cases "fst (send dd n t now rnd st)")
  case (Some a)
  then have "snd (send dd n t now rnd st) = st"
    by (auto simp: send_def Let_def split: if_splits option.splits)
  with fl show ?thesis by simp
next
  case None
  then have tr: "truthy dd" by (auto simp: send_def split: if_splits)
  then obtain x where x: "dd = Some x" by (cases dd) (simp_all add: truthy_def)
  let ?st' = "snd (send dd n t now rnd st)"
  let ?rid = "make_requestId x now rnd"
  have ne: "?rid \<noteq> rid" using other x by simp
  let ?new = "\<lparr>c_requestId = ?rid, timer_armed = True, due = now + 4500, settled = Pending\<rparr>"
  from None x have f:
    "calls ?st' = calls st @ [?new]"
    "pendingRequests ?st' = (pendingRequests st)(?rid \<mapsto> length (calls st))"
    "http_out ?st' = http_out st"
    by (auto simp: send_def Let_def split: if_splits option.splits)
  note d = in_flightD [OF fl]
  show ?thesis
  proof (rule in_flightI)
    show "c < length (calls ?st')" using d(1) by (simp add: f)
    show "calls ?st' ! c = \<lparr>c_requestId = rid, timer_armed = True, due = d, settled = Pending\<rparr>"
      using d(1,2) by (simp add: f nth_append)
    show "pendingRequests ?st' rid = Some c" using d(3) ne by (simp add: f)
    show "rid' = rid" if "pendingRequests ?st' rid' = Some c" for rid'
    proof (cases "rid' = ?rid")
      case True
      with that d(1) show ?thesis by (simp add: f)
    next
      case False
      with that have "pendingRequests st rid' = Some c" by (simp add: f)
      then show ?thesis by (rule d(4))
    qed
    show "c' = c" if "c' < length (calls ?st')" "c_requestId (calls ?st' ! c') = rid" for c'
    proof (cases "c' < length (calls st)")
      case True
      with that(2) have "c_requestId (calls st ! c') = rid" by (simp add: f nth_append)
      with True show ?thesis by (rule d(5))
    next
      case False
      with that(1) have "c' = length (calls st)" by (simp add: f)
      with that(2) ne show ?thesis by (simp add: f)
    qed
    show "c \<notin> fst ` set (http_out ?st')" using d(6) by (simp add: f)
  qed
qed

lemma in_flight_other_call:
  assumes fl: "in_flight rid c d st" and c': "c' \<noteq> c"
    and name: "c_requestId cl = c_requestId (calls st ! c')"
    and pr: "\<And>r x. pr r = Some x \<Longrightarrow> pendingRequests st r = Some x" "pr rid = Some c"
    and out: "fst ` set ho \<subseteq> insert c' (fst ` set (http_out st))"
  shows "in_flight rid c d (st\<lparr>pendingRequests := pr, calls := (calls st)[c' := cl],
                              http_out := ho\<rparr>)"
proof (rule in_flightI)
  note d = in_flightD [OF fl]
  let ?st' = "st\<lparr>pendingRequests := pr, calls := (calls st)[c' := cl], http_out := ho\<rparr>"
  show "c < length (calls ?st')" using d(1) by simp
  show "calls ?st' ! c = \<lparr>c_requestId = rid, timer_armed = True, due = d, settled = Pending\<rparr>"
    using d(1,2) c' by simp
  show "pendingRequests ?st' rid = Some c" using pr(2) by simp
  show "r = rid" if "pendingRequests ?st' r = Some c" for r
  proof -
    from that have "pr r = Some c" by simp
    then have "pendingRequests st r = Some c" by (rule pr(1))
    then show ?thesis by (rule d(4))
  qed
  show "x = c" if "x < length (calls ?st')" "c_requestId (calls ?st' ! x) = rid" for x
  proof -
    from that(1) have lt: "x < length (calls st)" by simp
    have "c_requestId (calls st ! x) = rid"
    proof (cases "x = c'")
      case True
      with that(2) lt name show ?thesis by simp
    next
      case False
      with that(2) show ?thesis by simp
    qed
    with lt show ?thesis by (rule d(5))
  qed
  show "c \<notin> fst ` set (http_out ?st')"
  proof
    assume "c \<in> fst ` set (http_out ?st')"
    then have "c \<in> fst ` set ho" by simp
    with out have "c \<in> insert c' (fst ` set (http_out st))" by blast
    with c' d(6) show False by simp
  qed
qed

lemma in_flight_resolver:
  assumes fl: "in_flight rid c d st" and c': "c' \<noteq> c"
  shows "in_flight rid c d (resolver c' resp st)"
proof (cases "c' < length (calls st)")
  case False
  with fl show ?thesis by (simp add: resolver_def)
next
  case True
  note d = in_flightD [OF fl]
  show ?thesis
  proof (cases "settled (calls st ! c') = Pending")
    case p: True
    have "in_flight rid c d (st\<lparr>pendingRequests := pendingRequests st,
        calls := (calls st)[c' := (calls st ! c')\<lparr>timer_armed := False, settled := Fulfilled resp\<rparr>],
        http_out := http_out st @ [(c', (200, ProcessedBody ''Message processed by device''
                                 (status resp) (message resp)))]\<rparr>)"
      by (rule in_flight_other_call [OF fl c']) (auto simp: d(3))
    then show ?thesis using True p by (simp add: resolver_def Let_def)
  next
    case np: False
    have "in_flight rid c d (st\<lparr>pendingRequests := pendingRequests st,
        calls := (calls st)[c' := (calls st ! c')\<lparr>timer_armed := False\<rparr>],
        http_out := http_out st\<rparr>)"
      by (rule in_flight_other_call [OF fl c']) (auto simp: d(3))
    then show ?thesis using True np by (simp add: resolver_def Let_def split: promise.splits)
  qed
qed

lemma in_flight_on_sms_response:
  assumes fl: "in_flight rid c d st" and other: "\<not> concerns rid c (SmsResponse sid p)"
  shows "in_flight rid c d (on_sms_response p st)"
proof (cases p)
  case None
  with fl show ?thesis by (simp add: on_sms_response_def in_flight_error_log)
next
  case (Some resp)
  show ?thesis
  proof (cases "requestId resp")
    case None
    with Some fl show ?thesis by (simp add: on_sms_response_def)
  next
    case rid': (Some rid')
    with other Some have ne: "rid' \<noteq> rid" by simp
    show ?thesis
    proof (cases "pendingRequests st rid'")
      case None
      with Some rid' fl show ?thesis by (simp add: on_sms_response_def)
    next
      case c': (Some c')
      have "c' \<noteq> c"
      proof
        assume "c' = c"
        with c' have "pendingRequests st rid' = Some c" by simp
        then have "rid' = rid" by (rule in_flightD(4) [OF fl])
        with ne show False by simp
      qed
      then have "in_flight rid c d (resolver c' resp st)" by (rule in_flight_resolver [OF fl])
      with Some rid' c' show ?thesis by (simp add: on_sms_response_def)
    qed
  qed
qed

lemma in_flight_timer_fire:
  assumes fl: "in_flight rid c d st" and c': "c' \<noteq> c"
  shows "in_flight rid c d (timer_fire now c' st)"
proof (cases "c' < length (calls st) \<and> timer_armed (calls st ! c') \<and> due (calls st ! c') \<le> now")
  case False
  then have "timer_fire now c' st = st" unfolding timer_fire_def by (rule if_not_P)
  with fl show ?thesis by simp
next
  case True
  then have lt: "c' < length (calls st)" by simp
  note d = in_flightD [OF fl]
  let ?pr = "(pendingRequests st)(c_requestId (calls st ! c') := None)"
  have ne: "c_requestId (calls st ! c') \<noteq> rid"
  proof
    assume "c_requestId (calls st ! c') = rid"
    with lt have "c' = c" by (rule d(5))
    with c' show False by simp
  qed
  have pr: "?pr r = Some x \<Longrightarrow> pendingRequests st r = Some x" for r x
    by (simp split: if_splits)
  have pr2: "?pr rid = Some c" using ne d(3) by simp
  show ?thesis
  proof (cases "settled (calls st ! c') = Pending")
    case p: True
    have "in_flight rid c d (st\<lparr>pendingRequests := ?pr,
        calls := (calls st)[c' := (calls st ! c')\<lparr>timer_armed := False,
                settled := Rejected ''Device did not respond in time''\<rparr>],
        http_out := http_out st @
          [(c', (408, TimeoutBody ''Device did not respond in time'' False))]\<rparr>)"
      by (rule in_flight_other_call [where pr = ?pr, OF fl c' _ pr pr2]) auto
    then show ?thesis using True p by (simp add: timer_fire_def Let_def)
  next
    case np: False
    have "in_flight rid c d (st\<lparr>pendingRequests := ?pr,
        calls := (calls st)[c' := (calls st ! c')\<lparr>timer_armed := False\<rparr>],
        http_out := http_out st\<rparr>)"
      by (rule in_flight_other_call [where pr = ?pr, OF fl c' _ pr pr2]) auto
    then show ?thesis using True np by (simp add: timer_fire_def Let_def split: promise.splits)
  qed
qed

lemma in_flight_step:
  assumes "in_flight rid c d st" and "\<not> concerns rid c e"
  shows "in_flight rid c d (step e st)"
proof (cases e)
  case (Send dd n t now rnd)
  with assms show ?thesis by (simp add: in_flight_send)
next
  case (SmsResponse sid p)
  with assms show ?thesis by (simp add: in_flight_on_sms_response)
next
  case (TimerFire now c')
  with assms show ?thesis by (simp add: in_flight_timer_fire)
qed (use assms in \<open>simp_all add: in_flight_create in_flight_delete in_flight_connect
      in_flight_on_disconnect in_flight_saveDevices\<close>)

lemma in_flight_run:
  assumes "in_flight rid c d st" and "\<forall>e \<in> set es. \<not> concerns rid c e"
  shows "in_flight rid c d (run es st)"
  using assms unfolding run_def
  by (induction es arbitrary: st) (simp_all add: in_flight_step)

lemma in_flight_after_send:
  assumes ok: "calls_ok st" and new: "unused_requestId (make_requestId x now rnd) st"
    and go: "fst (send (Some x) n t now rnd st) = None"
  shows "in_flight (make_requestId x now rnd) (length (calls st)) (now + 4500)
           (snd (send (Some x) n t now rnd st))"
proof (rule in_flightI)
  let ?st' = "snd (send (Some x) n t now rnd st)"
  let ?rid = "make_requestId x now rnd"
  let ?c = "length (calls st)"
  let ?new = "\<lparr>c_requestId = ?rid, timer_armed = True, due = now + 4500, settled = Pending\<rparr>"
  from go have f:
    "calls ?st' = calls st @ [?new]"
    "pendingRequests ?st' = (pendingRequests st)(?rid \<mapsto> length (calls st))"
    "http_out ?st' = http_out st"
    by (auto simp: send_def Let_def split: if_splits option.splits)
  show "?c < length (calls ?st')" by (simp add: f)
  show "calls ?st' ! ?c = ?new" by (simp add: f)
  show "pendingRequests ?st' ?rid = Some ?c" by (simp add: f)
  show "rid' = ?rid" if "pendingRequests ?st' rid' = Some ?c" for rid'
  proof (rule ccontr)
    assume "rid' \<noteq> ?rid"
    with that have "pendingRequests st rid' = Some ?c" by (simp add: f)
    with ok have "?c < length (calls st)" unfolding calls_ok_def by blast
    then show False by simp
  qed
  show "c' = ?c" if "c' < length (calls ?st')" "c_requestId (calls ?st' ! c') = ?rid" for c'
  proof (rule ccontr)
    assume "c' \<noteq> ?c"
    with that(1) have lt: "c' < length (calls st)" by (simp add: f)
    with that(2) have "c_requestId (calls st ! c') = ?rid" by (simp add: f nth_append)
    moreover from lt have "calls st ! c' \<in> set (calls st)" by simp
    ultimately show False using new unfolding unused_requestId_def by blast
  qed
  show "?c \<notin> fst ` set (http_out ?st')"
  proof
    assume "?c \<in> fst ` set (http_out ?st')"
    then obtain y where y: "y \<in> set (http_out st)" "fst y = ?c" by (auto simp: f)
    from ok y(1) have "fst y < length (calls st)" unfolding calls_ok_def by blast
    with y(2) show False by simp
  qed
qed

lemma in_flight_timeout:
  assumes fl: "in_flight rid c d st"
  shows "t < d \<Longrightarrow> timer_fire t c st = st"
    and "d \<le> t \<Longrightarrow> http_out (timer_fire t c st) =
           http_out st @ [(c, (408, TimeoutBody ''Device did not respond in time'' False))]"
    and "d \<le> t \<Longrightarrow> pendingRequests (timer_fire t c st) rid = None"
  using in_flightD(1,2) [OF fl] by (simp_all add: timer_fire_def Let_def)

lemma in_flight_reply:
  assumes fl: "in_flight rid c d st" and tag: "requestId resp = Some rid"
  shows "http_out (on_sms_response (Some resp) st) =
           http_out st @ [(c, (200, ProcessedBody ''Message processed by device''
                                      (status resp) (message resp)))]"
  using in_flightD(1,2,3) [OF fl] tag
  by (simp add: on_sms_response_def resolver_def Let_def)

lemma calls_ok_st_bound: "calls_ok st_bound"
  unfolding st_bound_def st_created_def
  by (simp add: calls_ok_connect calls_ok_create calls_ok_init)

text \<open>
  C4, as the code has it. A call with a missing or empty \<^verbatim>\<open>deviceId\<close>,
  \<^verbatim>\<open>destNumber\<close> or \<^verbatim>\<open>textMessage\<close> is answered 400. Otherwise the call is
  answered 404 ``Device not registered'' if no device has the deviceid, 404 ``Device not
  connected'' if the device has no socketid, and otherwise \<^verbatim>\<open>insert-sms\<close> is pushed to
  the device's socket and the call waits. Whatever then happens that does not concern
  this request (no reply tagged with its request id, its timer not fired, the request id
  not drawn again), the call is still unanswered; its timer cannot fire before 4500 ms
  have passed; when it fires the call is answered 408; and when a reply tagged with the
  request id arrives first the call is answered 200 with the \<^verbatim>\<open>status\<close> and
  \<^verbatim>\<open>message\<close> of the reply. The request id is taken to be new among the calls made.
\<close>

theorem send_outcomes:
  fixes dd n t :: "string option" and now :: nat and rnd :: string and st :: state
  defines "rid \<equiv> make_requestId (the dd) now rnd"
    and "c \<equiv> length (calls st)"
    and "st1 \<equiv> snd (send dd n t now rnd st)"
  assumes ok: "calls_ok st"
  shows
    "(\<not> truthy dd \<or> \<not> truthy n \<or> \<not> truthy t \<longrightarrow>
        send dd n t now rnd st =
          (Some (400, ErrorBody ''Device ID, destination number, and text message are required''),
           st)) \<and>
     (truthy dd \<and> truthy n \<and> truthy t \<longrightarrow>
        (deviceByDeviceId st (the dd) = None \<longrightarrow>
           send dd n t now rnd st = (Some (404, ErrorBody ''Device not registered''), st)) \<and>
        (\<forall>r. deviceByDeviceId st (the dd) = Some r \<and> \<not> truthy (socketid (heap st r)) \<longrightarrow>
           send dd n t now rnd st = (Some (404, ErrorBody ''Device not connected''), st)) \<and>
        (\<forall>r. deviceByDeviceId st (the dd) = Some r \<and> truthy (socketid (heap st r)) \<longrightarrow>
           fst (send dd n t now rnd st) = None \<and>
           outbox st1 =
             outbox st @ [(Room (the (socketid (heap st r))), InsertSms (the n) (the t) rid)] \<and>
           (unused_requestId rid st \<longrightarrow>
              (\<forall>es. (\<forall>e \<in> set es. \<not> concerns rid c e) \<longrightarrow>
                 c \<notin> fst ` set (http_out (run es st1)) \<and>
                 (\<forall>t' < now + 4500. timer_fire t' c (run es st1) = run es st1) \<and>
                 (\<forall>t' \<ge> now + 4500.
                    http_out (timer_fire t' c (run es st1)) =
                      http_out (run es st1) @
                        [(c, (408, TimeoutBody ''Device did not respond in time'' False))]) \<and>
                 (\<forall>resp. requestId resp = Some rid \<longrightarrow>
                    http_out (on_sms_response (Some resp) (run es st1)) =
                      http_out (run es st1) @
                        [(c, (200, ProcessedBody ''Message processed by device''
                                     (status resp) (message resp)))])))))"
proof (intro conjI impI allI)
  assume "\<not> truthy dd \<or> \<not> truthy n \<or> \<not> truthy t"
  then show "send dd n t now rnd st =
      (Some (400, ErrorBody ''Device ID, destination number, and text message are required''), st)"
    by (simp add: send_def)
next
  assume "truthy dd \<and> truthy n \<and> truthy t" and "deviceByDeviceId st (the dd) = None"
  then show "send dd n t now rnd st = (Some (404, ErrorBody ''Device not registered''), st)"
    by (simp add: send_def)
next
  fix r
  assume "truthy dd \<and> truthy n \<and> truthy t"
    and "deviceByDeviceId st (the dd) = Some r \<and> \<not> truthy (socketid (heap st r))"
  then show "send dd n t now rnd st = (Some (404, ErrorBody ''Device not connected''), st)"
    by (simp add: send_def)
next
  fix r
  assume v: "truthy dd \<and> truthy n \<and> truthy t"
    and r: "deviceByDeviceId st (the dd) = Some r \<and> truthy (socketid (heap st r))"
  then show go: "fst (send dd n t now rnd st) = None"
    by (simp add: send_def Let_def)
  from v r show "outbox st1 =
      outbox st @ [(Room (the (socketid (heap st r))), InsertSms (the n) (the t) rid)]"
    by (simp add: st1_def rid_def send_def Let_def)
  from v obtain x where x: "dd = Some x" by (cases dd) (simp_all add: truthy_def)
  {
    fix es
    assume new: "unused_requestId rid st" and quiet: "\<forall>e \<in> set es. \<not> concerns rid c e"
    have "in_flight rid c (now + 4500) st1"
      using in_flight_after_send [OF ok, of x now rnd n t] new go
      by (simp add: x rid_def c_def st1_def)
    then have fl: "in_flight rid c (now + 4500) (run es st1)"
      using quiet by (rule in_flight_run)
    show "c \<notin> fst ` set (http_out (run es st1))"
      by (rule in_flightD(6) [OF fl])
    show "timer_fire t' c (run es st1) = run es st1" if "t' < now + 4500" for t'
      using that by (rule in_flight_timeout(1) [OF fl])
    show "http_out (timer_fire t' c (run es st1)) =
        http_out (run es st1) @ [(c, (408, TimeoutBody ''Device did not respond in time'' False))]"
      if "t' \<ge> now + 4500" for t'
      using that by (rule in_flight_timeout(2) [OF fl])
    show "http_out (on_sms_response (Some resp) (run es st1)) =
        http_out (run es st1) @
          [(c, (200, ProcessedBody ''Message processed by device'' (status resp) (message resp)))]"
      if "requestId resp = Some rid" for resp
      using fl that by (rule in_flight_reply)
  }
qed

theorem send_outcomes_witness:
  "send (Some the_deviceid) None (Some ''hi'') 1700 ''k3x9q2m1z'' st_bound =
     (Some (400, ErrorBody ''Device ID, destination number, and text message are required''),
      st_bound) \<and>
   send (Some ''dev_unknown'') (Some ''+15551234567'') (Some ''hi'') 1700 ''k3x9q2m1z'' st_bound =
     (Some (404, ErrorBody ''Device not registered''), st_bound) \<and>
   send (Some the_deviceid) (Some ''+15551234567'') (Some ''hi'') 1700 ''k3x9q2m1z'' st_created =
     (Some (404, ErrorBody ''Device not connected''), st_created) \<and>
   fst (send (Some the_deviceid) (Some ''+15551234567'') (Some ''hi'') 1700 ''k3x9q2m1z'' st_bound) =
     None \<and>
   http_out (run es_quiet st_sent) = [] \<and>
   timer_fire 6199 0 (run es_quiet st_sent) = run es_quiet st_sent \<and>
   http_out (timer_fire 6200 0 (run es_quiet st_sent)) =
     [(0, (408, TimeoutBody ''Device did not respond in time'' False))] \<and>
   http_out (on_sms_response (Some the_reply) (run es_quiet st_sent)) =
     [(0, (200, ProcessedBody ''Message processed by device''
                  (Some (JBool True)) (Some (JStr ''sent''))))]"
proof -
  have ok0: "calls_ok st_created"
    unfolding st_created_def by (simp add: calls_ok_create calls_ok_init)
  have tr: "truthy (Some the_deviceid)" "truthy (Some ''dev_unknown'')"
    "truthy (Some ''+15551234567'')" "truthy (Some ''hi'')" "\<not> truthy None"
    by (simp_all add: truthy_def the_deviceid_def)
  have unknown: "deviceByDeviceId st_bound (the (Some ''dev_unknown'')) = None"
    by (simp add: scenario_defs handler_defs Let_def)
  have unbound: "deviceByDeviceId st_created (the (Some the_deviceid)) = Some 0 \<and>
      \<not> truthy (socketid (heap st_created 0))"
    by (simp add: scenario_defs handler_defs Let_def)
  have bound: "deviceByDeviceId st_bound (the (Some the_deviceid)) = Some 0 \<and>
      truthy (socketid (heap st_bound 0))"
    by (simp add: scenario_defs handler_defs Let_def)
  have rid: "make_requestId (the (Some the_deviceid)) 1700 ''k3x9q2m1z'' = the_requestId"
    by (simp add: make_requestId_def the_deviceid_def the_requestId_def hexdigit_def)
  have c: "length (calls st_bound) = 0"
    by (simp add: scenario_defs handler_defs Let_def)
  have new: "unused_requestId the_requestId st_bound"
    using c by (simp add: unused_requestId_def)
  have quiet: "\<forall>e \<in> set es_quiet. \<not> concerns the_requestId 0 e"
    by (simp add: es_quiet_def the_requestId_def the_deviceid_def make_requestId_def hexdigit_def)
  have tag: "requestId the_reply = Some the_requestId"
    by (simp add: the_reply_def)
  have none: "http_out (run es_quiet st_sent) = []"
    by (simp add: run_def es_quiet_def scenario_defs handler_defs Let_def)
  note a = send_outcomes [OF calls_ok_st_bound, of "Some the_deviceid" None "Some ''hi''" 1700
      "''k3x9q2m1z''"]
  note b = send_outcomes [OF calls_ok_st_bound, of "Some ''dev_unknown''" "Some ''+15551234567''"
      "Some ''hi''" 1700 "''k3x9q2m1z''"]
  note d = send_outcomes [OF ok0, of "Some the_deviceid" "Some ''+15551234567''"
      "Some ''hi''" 1700 "''k3x9q2m1z''"]
  note e = send_outcomes [OF calls_ok_st_bound, of "Some the_deviceid" "Some ''+15551234567''"
      "Some ''hi''" 1700 "''k3x9q2m1z''", unfolded rid c, folded st_sent_def]
  have a': "send (Some the_deviceid) None (Some ''hi'') 1700 ''k3x9q2m1z'' st_bound =
     (Some (400, ErrorBody ''Device ID, destination number, and text message are required''),
      st_bound)"
    using a tr by blast
  have b': "send (Some ''dev_unknown'') (Some ''+15551234567'') (Some ''hi'') 1700 ''k3x9q2m1z'' st_bound =
     (Some (404, ErrorBody ''Device not registered''), st_bound)"
    using b tr unknown by blast
  have d': "send (Some the_deviceid) (Some ''+15551234567'') (Some ''hi'') 1700 ''k3x9q2m1z'' st_created =
     (Some (404, ErrorBody ''Device not connected''), st_created)"
    using d tr unbound by blast
  have e1: "fst (send (Some the_deviceid) (Some ''+15551234567'') (Some ''hi'') 1700 ''k3x9q2m1z'' st_bound) =
     None"
    using e tr bound by blast
  have e2: "(\<forall>t' < 1700 + 4500. timer_fire t' 0 (run es_quiet st_sent) = run es_quiet st_sent) \<and>
     (\<forall>t' \<ge> 1700 + 4500. http_out (timer_fire t' 0 (run es_quiet st_sent)) =
        http_out (run es_quiet st_sent) @
          [(0, (408, TimeoutBody ''Device did not respond in time'' False))]) \<and>
     (\<forall>resp. requestId resp = Some the_requestId \<longrightarrow>
        http_out (on_sms_response (Some resp) (run es_quiet st_sent)) =
          http_out (run es_quiet st_sent) @
            [(0, (200, ProcessedBody ''Message processed by device''
                         (status resp) (message resp)))])"
    using e tr bound new quiet by blast
  from e2 tag have e3: "timer_fire 6199 0 (run es_quiet st_sent) = run es_quiet st_sent"
    "http_out (timer_fire 6200 0 (run es_quiet st_sent)) =
        http_out (run es_quiet st_sent) @
          [(0, (408, TimeoutBody ''Device did not respond in time'' False))]"
    "http_out (on_sms_response (Some the_reply) (run es_quiet st_sent)) =
          http_out (run es_quiet st_sent) @
            [(0, (200, ProcessedBody ''Message processed by device''
                         (status the_reply) (message the_reply)))]"
    by simp_all
  from a' b' d' e1 e3 none show ?thesis by (simp add: the_reply_def)
qed

text \<open>
  The claim of C4 as it was stated fails for a call that names a deviceid no device has
  and leaves out the destination number: the answer is 400, not 404.
\<close>

theorem send_missing_field_counterexample:
  "deviceByDeviceId st_bound ''dev_unknown'' = None \<and>
   fst (send (Some ''dev_unknown'') None (Some ''hi'') 1700 ''k3x9q2m1z'' st_bound) \<noteq>
     Some (404, ErrorBody ''Device not registered'') \<and>
   send (Some ''dev_unknown'') None (Some ''hi'') 1700 ''k3x9q2m1z'' st_bound =
     (Some (400, ErrorBody ''Device ID, destination number, and text message are required''),
      st_bound)"
  by (simp add: scenario_defs handler_defs Let_def)

subsection \<open>The race between the reply and the timer\<close>

lemma register_state: "snd (register parseDate now k st) = st"
  by (simp add: register_def split: option.splits)

lemma in_flight_st_sent: "in_flight the_requestId 0 6200 st_sent"
proof -
  have rid: "make_requestId the_deviceid 1700 ''k3x9q2m1z'' = the_requestId"
    by (simp add: make_requestId_def the_deviceid_def the_requestId_def hexdigit_def)
  have c: "length (calls st_bound) = 0"
    by (simp add: scenario_defs handler_defs Let_def)
  have new: "unused_requestId (make_requestId the_deviceid 1700 ''k3x9q2m1z'') st_bound"
    using c by (simp add: unused_requestId_def)
  have go: "fst (send (Some the_deviceid) (Some ''+15551234567'') (Some ''hi'') 1700 ''k3x9q2m1z''
      st_bound) = None"
    by (simp add: scenario_defs handler_defs Let_def)
  from in_flight_after_send [OF calls_ok_st_bound new go] show ?thesis
    by (simp add: rid c st_sent_def)
qed

text \<open>
  In every run from the state of a fresh process, no call of \<^verbatim>\<open>/send\<close> is answered
  twice: the responses that have gone out belong to different calls.
\<close>

theorem one_response_per_call:
  "distinct (map fst (http_out (run es (init_state f))))"
proof -
  have "calls_ok (run es (init_state f))"
    using calls_ok_init by (rule calls_ok_run)
  then show ?thesis by (simp add: calls_ok_def)
qed

text \<open>
  When the timer of a call in flight fires first, the entry of its request id leaves the
  pending table, and a reply tagged with that request id that arrives afterwards is
  dropped: it changes nothing.
\<close>

theorem timeout_then_reply_dropped:
  assumes fl: "in_flight rid c d st" and due: "d \<le> t" and tag: "requestId resp = Some rid"
  shows "pendingRequests (timer_fire t c st) rid = None \<and>
         on_sms_response (Some resp) (timer_fire t c st) = timer_fire t c st"
proof -
  have gone: "pendingRequests (timer_fire t c st) rid = None"
    using due by (rule in_flight_timeout(3) [OF fl])
  with tag show ?thesis by (simp add: on_sms_response_def)
qed

theorem timeout_then_reply_dropped_witness:
  "pendingRequests (timer_fire 6200 0 st_sent) the_requestId = None \<and>
   on_sms_response (Some the_reply) (timer_fire 6200 0 st_sent) = timer_fire 6200 0 st_sent"
proof -
  have tag: "requestId the_reply = Some the_requestId" by (simp add: the_reply_def)
  from timeout_then_reply_dropped [OF in_flight_st_sent _ tag, of 6200] show ?thesis by simp
qed

text \<open>
  When the reply of a call in flight arrives first, its timer is cleared: the timer
  callback does not run afterwards, at whatever time.
\<close>

theorem reply_then_timer_cleared:
  assumes fl: "in_flight rid c d st" and tag: "requestId resp = Some rid"
  shows "timer_fire t c (on_sms_response (Some resp) st) = on_sms_response (Some resp) st"
  using in_flightD(1,2,3) [OF fl] tag
  by (simp add: on_sms_response_def resolver_def timer_fire_def Let_def)

theorem reply_then_timer_cleared_witness:
  "timer_fire 6200 0 st_replied = st_replied"
proof -
  have tag: "requestId the_reply = Some the_requestId" by (simp add: the_reply_def)
  from reply_then_timer_cleared [OF in_flight_st_sent tag, of 6200] show ?thesis
    by (simp add: st_replied_def)
qed

subsection \<open>Restart\<close>

lemma fold_index_device_maps:
  assumes ids: "\<forall>r \<in> set rs. \<exists>i. i \<noteq> [] \<and> deviceid (heap st r) = Some i"
    and keys: "inj_on (\<lambda>r. key (heap st r)) (set rs)"
    and dids: "inj_on (\<lambda>r. deviceid (heap st r)) (set rs)"
    and empty: "deviceByKey st = Map.empty" "deviceByDeviceId st = Map.empty"
  shows "(\<forall>k r. deviceByKey (fold index_device rs st) k = Some r \<longleftrightarrow>
            r \<in> set rs \<and> key (heap st r) = k) \<and>
         (\<forall>i r. deviceByDeviceId (fold index_device rs st) i = Some r \<longleftrightarrow>
            r \<in> set rs \<and> deviceid (heap st r) = Some i)"
  using ids keys dids
proof (induction rs rule: rev_induct)
  case Nil
  show ?case using empty by simp
next
  case (snoc x rs)
  let ?st = "fold index_device rs st"
  have h: "heap ?st = heap st" using fold_index_device_frame [of rs st] by simp
  from snoc.prems(1) obtain i where i: "i \<noteq> []" "deviceid (heap st x) = Some i" by auto
  have IH: "(\<forall>k r. deviceByKey ?st k = Some r \<longleftrightarrow> r \<in> set rs \<and> key (heap st r) = k) \<and>
         (\<forall>i r. deviceByDeviceId ?st i = Some r \<longleftrightarrow> r \<in> set rs \<and> deviceid (heap st r) = Some i)"
    using snoc.prems by (intro snoc.IH) (auto simp: inj_on_def)
  have kx: "r = x" if "r \<in> set (rs @ [x])" "key (heap st r) = key (heap st x)" for r
    using snoc.prems(2) that unfolding inj_on_def by auto
  have dx: "r = x" if "r \<in> set (rs @ [x])" "deviceid (heap st r) = Some i" for r
    using snoc.prems(3) that i(2) unfolding inj_on_def by auto
  have maps: "deviceByKey (index_device x ?st) = (deviceByKey ?st)(key (heap st x) \<mapsto> x)"
    "deviceByDeviceId (index_device x ?st) = (deviceByDeviceId ?st)(i \<mapsto> x)"
    using i by (simp_all add: index_device_def Let_def h truthy_def)
  have a: "deviceByKey (index_device x ?st) k = Some r \<longleftrightarrow>
        r \<in> set (rs @ [x]) \<and> key (heap st r) = k" for k r
  proof (cases "k = key (heap st x)")
    case True
    then show ?thesis using kx [of r] by (auto simp: maps)
  next
    case False
    then show ?thesis using IH by (auto simp: maps)
  qed
  have b: "deviceByDeviceId (index_device x ?st) j = Some r \<longleftrightarrow>
        r \<in> set (rs @ [x]) \<and> deviceid (heap st r) = Some j" for j r
  proof (cases "j = i")
    case True
    then show ?thesis using dx [of r] i by (auto simp: maps)
  next
    case False
    then show ?thesis using IH i by (auto simp: maps)
  qed
  show ?case using a b by simp
qed

text \<open>
  A server that starts beside the file which a consistent registry has flushed listens
  with a consistent registry that holds the same records in the same order.
\<close>

theorem reload_consistent:
  assumes ok: "store_ok st"
  shows "fst (startServer w (init_state (Content (map (heap st) (devices st))))) = Listening \<and>
         fst (snd (startServer w (init_state (Content (map (heap st) (devices st)))))) = None \<and>
         store_ok (snd (snd (startServer w (init_state (Content (map (heap st) (devices st))))))) \<and>
         map (heap (snd (snd (startServer w (init_state (Content (map (heap st) (devices st))))))))
             (devices (snd (snd (startServer w (init_state (Content (map (heap st) (devices st)))))))) =
           map (heap st) (devices st)"
proof -
  let ?ds = "map (heap st) (devices st)"
  let ?n = "length (devices st)"
  let ?st1 = "parse_devices ?ds (init_state (Content ?ds))"
  let ?st2 = "fold index_device (devices ?st1) ?st1"
  have res: "startServer w (init_state (Content ?ds)) = (Listening, None, ?st2)"
    by (simp add: startServer_def loadDevices_def init_state_def Let_def)
  have d1: "devices ?st1 = [0..<?n]" "next_ref ?st1 = ?n"
    "deviceByKey ?st1 = Map.empty" "deviceByDeviceId ?st1 = Map.empty"
    by (simp_all add: parse_devices_def init_state_def)
  have h1: "heap ?st1 r = heap st (devices st ! r)" if "r < ?n" for r
    using that by (simp add: parse_devices_def init_state_def)
  have mem: "devices st ! r \<in> set (devices st)" if "r < ?n" for r
    using that by simp
  have dist: "distinct (devices st)" using ok by (simp add: store_ok_def)
  have ids: "\<forall>r \<in> set (devices ?st1). \<exists>i. i \<noteq> [] \<and> deviceid (heap ?st1 r) = Some i"
  proof
    fix r assume "r \<in> set (devices ?st1)"
    then have r: "r < ?n" by (simp add: d1)
    from store_ok_mem [OF ok mem [OF r]] show "\<exists>i. i \<noteq> [] \<and> deviceid (heap ?st1 r) = Some i"
      by (auto simp: h1 [OF r])
  qed
  have keys: "inj_on (\<lambda>r. key (heap ?st1 r)) (set (devices ?st1))"
  proof (rule inj_onI)
    fix a b assume "a \<in> set (devices ?st1)" "b \<in> set (devices ?st1)"
      and eq: "key (heap ?st1 a) = key (heap ?st1 b)"
    then have ab: "a < ?n" "b < ?n" by (simp_all add: d1)
    from eq have eq': "key (heap st (devices st ! a)) = key (heap st (devices st ! b))"
      by (simp add: h1 [OF ab(1)] h1 [OF ab(2)])
    have ka: "deviceByKey st (key (heap st (devices st ! a))) = Some (devices st ! a)"
      using store_ok_mem [OF ok mem [OF ab(1)]] by blast
    have kb: "deviceByKey st (key (heap st (devices st ! b))) = Some (devices st ! b)"
      using store_ok_mem [OF ok mem [OF ab(2)]] by blast
    from ka have "deviceByKey st (key (heap st (devices st ! b))) = Some (devices st ! a)"
      by (simp only: eq')
    with kb have "devices st ! a = devices st ! b" by simp
    with dist ab show "a = b" by (simp add: nth_eq_iff_index_eq)
  qed
  have dids: "inj_on (\<lambda>r. deviceid (heap ?st1 r)) (set (devices ?st1))"
  proof (rule inj_onI)
    fix a b assume "a \<in> set (devices ?st1)" "b \<in> set (devices ?st1)"
      and eq: "deviceid (heap ?st1 a) = deviceid (heap ?st1 b)"
    then have ab: "a < ?n" "b < ?n" by (simp_all add: d1)
    from eq have eq': "deviceid (heap st (devices st ! a)) = deviceid (heap st (devices st ! b))"
      by (simp add: h1 [OF ab(1)] h1 [OF ab(2)])
    obtain ia where ia: "deviceid (heap st (devices st ! a)) = Some ia"
      "deviceByDeviceId st ia = Some (devices st ! a)"
      using store_ok_mem [OF ok mem [OF ab(1)]] by blast
    obtain ib where ib: "deviceid (heap st (devices st ! b)) = Some ib"
      "deviceByDeviceId st ib = Some (devices st ! b)"
      using store_ok_mem [OF ok mem [OF ab(2)]] by blast
    from eq' ia(1) ib(1) have "ia = ib" by simp
    with ia(2) ib(2) have "devices st ! a = devices st ! b" by simp
    with dist ab show "a = b" by (simp add: nth_eq_iff_index_eq)
  qed
  note m = fold_index_device_maps [OF ids keys dids d1(3) d1(4)]
  have fr: "heap ?st2 = heap ?st1" "devices ?st2 = [0..<?n]" "next_ref ?st2 = ?n"
    using fold_index_device_frame [of "devices ?st1" ?st1] by (simp_all add: d1)
  have byKey: "deviceByKey ?st2 k = Some r \<longleftrightarrow> r < ?n \<and> key (heap ?st1 r) = k" for k r
    using m by (simp add: d1)
  have byId: "deviceByDeviceId ?st2 i = Some r \<longleftrightarrow> r < ?n \<and> deviceid (heap ?st1 r) = Some i" for i r
    using m by (simp add: d1)
  have c2: "r < next_ref ?st2 \<and> deviceByKey ?st2 (key (heap ?st2 r)) = Some r \<and>
        (\<exists>i. i \<noteq> [] \<and> deviceid (heap ?st2 r) = Some i \<and> deviceByDeviceId ?st2 i = Some r)"
    if "r \<in> set (devices ?st2)" for r
  proof -
    from that have r: "r < ?n" by (simp add: fr)
    from r have "r \<in> set (devices ?st1)" by (simp add: d1)
    with ids obtain i where "i \<noteq> []" "deviceid (heap ?st1 r) = Some i" by blast
    with r show ?thesis by (auto simp: fr byKey byId)
  qed
  have c3: "r \<in> set (devices ?st2) \<and> key (heap ?st2 r) = k" if "deviceByKey ?st2 k = Some r" for k r
    using that by (simp add: byKey fr)
  have c4: "r \<in> set (devices ?st2) \<and> deviceid (heap ?st2 r) = Some i"
    if "deviceByDeviceId ?st2 i = Some r" for i r
    using that by (simp add: byId fr)
  have "distinct (devices ?st2)" by (simp add: fr)
  then have sok: "store_ok ?st2" unfolding store_ok_def using c2 c3 c4 by blast
  have same: "map (heap ?st2) (devices ?st2) = ?ds"
    by (rule nth_equalityI) (simp_all add: fr h1)
  from res sok same show ?thesis by simp
qed

theorem reload_consistent_witness:
  "store_ok st_bound \<and>
   store_ok (snd (snd (startServer True
     (init_state (Content (map (heap st_bound) (devices st_bound))))))) \<and>
   map (heap (snd (snd (startServer True
          (init_state (Content (map (heap st_bound) (devices st_bound))))))))
       (devices (snd (snd (startServer True
          (init_state (Content (map (heap st_bound) (devices st_bound)))))))) =
     [\<lparr>dev_id = ''0123456789abcdef'', key = ''abc123'', deviceid = Some the_deviceid,
       expDate = None, socketid = Some ''sockA''\<rparr>]"
proof -
  have obj: "devices st_bound = [0]"
    "heap st_bound 0 = \<lparr>dev_id = ''0123456789abcdef'', key = ''abc123'',
       deviceid = Some the_deviceid, expDate = None, socketid = Some ''sockA''\<rparr>"
    by (simp_all add: scenario_defs handler_defs Let_def)
  from reload_consistent [OF store_ok_st_bound, of True] store_ok_st_bound obj
  show ?thesis by simp
qed

end
